theory Spec2Isabelle
  imports Main "HOL-Library.Word"
begin

section \<open>Rectangles\<close>

text \<open>
  The program works on OpenCV rectangles \<^verbatim>\<open>cv::Rect\<close> (\<^verbatim>\<open>Rect_<int>\<close>): the top-left
  corner and the extent, all of C++ type \<^verbatim>\<open>int\<close>. Signed overflow is undefined
  behaviour in C++, so the model uses mathematical integers: it describes every run in
  which no intermediate value leaves the range of \<^verbatim>\<open>int\<close>.
\<close>

record rect =
  rect_x :: int
  rect_y :: int
  rect_width :: int
  rect_height :: int

text \<open>The default constructor \<^verbatim>\<open>Rect()\<close>: all four fields are zero.\<close>

definition Rect0 :: rect where
  "Rect0 = \<lparr>rect_x = 0, rect_y = 0, rect_width = 0, rect_height = 0\<rparr>"

text \<open>
  Modelled from the spec: the members of \<^verbatim>\<open>cv::Rect\<close> that the program calls
  (\<^verbatim>\<open>area()\<close>, \<^verbatim>\<open>operator&\<close>, \<^verbatim>\<open>operator|\<close>) are declared in the OpenCV headers, which
  are not part of the repository. The data model of the spec gives them: the area is
  width times height, the intersection is the overlapping rectangle and is empty when
  there is no overlap, the union is the smallest rectangle enclosing both. The three
  definitions below are these, written the way OpenCV 3.1 (the version the source file
  refers to) computes them.
\<close>

definition area :: "rect \<Rightarrow> int" where
  "area r = rect_width r * rect_height r"

definition rect_and :: "rect \<Rightarrow> rect \<Rightarrow> rect" where
  "rect_and a b =
     (let x1 = max (rect_x a) (rect_x b);
          y1 = max (rect_y a) (rect_y b);
          w = min (rect_x a + rect_width a) (rect_x b + rect_width b) - x1;
          h = min (rect_y a + rect_height a) (rect_y b + rect_height b) - y1
      in if w \<le> 0 \<or> h \<le> 0 then Rect0
         else \<lparr>rect_x = x1, rect_y = y1, rect_width = w, rect_height = h\<rparr>)"

definition rect_or :: "rect \<Rightarrow> rect \<Rightarrow> rect" where
  "rect_or a b =
     (let x1 = min (rect_x a) (rect_x b);
          y1 = min (rect_y a) (rect_y b);
          w = max (rect_x a + rect_width a) (rect_x b + rect_width b) - x1;
          h = max (rect_y a + rect_height a) (rect_y b + rect_height b) - y1
      in \<lparr>rect_x = x1, rect_y = y1, rect_width = w, rect_height = h\<rparr>)"


section \<open>The cross-channel matcher \<^verbatim>\<open>getCCRectBinary\<close>\<close>

text \<open>
  The five arguments the function receives by reference or as a pointer. The function
  returns its \<^verbatim>\<open>int\<close> result together with the arguments as they are after the call.
\<close>

record cc_args =
  rectsChA :: "rect list"
  rectsChB :: "rect list"
  usedA :: "int list"
  usedB :: "int list"
  ccRects :: "rect list"

text \<open>
  The locals that the two nested loops update. \<^verbatim>\<open>selectedRect\<close> starts as \<^verbatim>\<open>Rect()\<close>;
  \<^verbatim>\<open>iTarget\<close> and \<^verbatim>\<open>jTarget\<close> are uninitialised in the source and the model starts
  them at 0: they are read only after \<^verbatim>\<open>maxArea\<close> became positive, that is after an
  assignment (lemma \<open>loopI_inv\<close> below shows they then hold the selected pair).
\<close>

record scan =
  selectedRect :: rect
  iTarget :: nat
  jTarget :: nat
  maxArea :: int

definition scan0 :: scan where
  "scan0 = \<lparr>selectedRect = Rect0, iTarget = 0, jTarget = 0, maxArea = 0\<rparr>"

text \<open>The body of the inner loop, lines 298 to 309.\<close>

definition scanBody :: "cc_args \<Rightarrow> nat \<Rightarrow> nat \<Rightarrow> scan \<Rightarrow> scan" where
  "scanBody a i j s =
     (if usedA a ! i = 0 \<and> usedB a ! j = 0 then
        (let tmpRect = rect_and (rectsChA a ! i) (rectsChB a ! j) in
         if area tmpRect > 0 then
           (let tmpRect = rect_or (rectsChA a ! i) (rectsChB a ! j) in
            if area tmpRect > maxArea s then
              \<lparr>selectedRect = tmpRect, iTarget = i, jTarget = j, maxArea = area tmpRect\<rparr>
            else s)
         else s)
      else s)"

function loopJ :: "cc_args \<Rightarrow> nat \<Rightarrow> nat \<Rightarrow> nat \<Rightarrow> scan \<Rightarrow> scan" where
  "loopJ a i j jMax s =
     (if j < jMax then loopJ a i (Suc j) jMax (scanBody a i j s) else s)"
  by pat_completeness auto
termination
  by (relation "measure (\<lambda>(a, i, j, jMax, s). jMax - j)") auto

function loopI :: "cc_args \<Rightarrow> nat \<Rightarrow> nat \<Rightarrow> nat \<Rightarrow> scan \<Rightarrow> scan" where
  "loopI a i iMax jMax s =
     (if i < iMax then loopI a (Suc i) iMax jMax (loopJ a i 0 jMax s) else s)"
  by pat_completeness auto
termination
  by (relation "measure (\<lambda>(a, i, iMax, jMax, s). iMax - i)") auto

declare loopJ.simps [simp del] loopI.simps [simp del]

text \<open>The two loops of lines 294 to 311, from the initial values of the locals.\<close>

definition scanPairs :: "cc_args \<Rightarrow> scan" where
  "scanPairs a = loopI a 0 (length (rectsChA a)) (length (rectsChB a)) scan0"

definition getCCRectBinary :: "cc_args \<Rightarrow> nat \<Rightarrow> int \<times> cc_args" where
  "getCCRectBinary a code =
     (let s = scanPairs a in
      if maxArea s > 0 then
        (0, a\<lparr>ccRects := (ccRects a)[code := selectedRect s],
              usedA := (usedA a)[iTarget s := 1],
              usedB := (usedB a)[jTarget s := 1]\<rparr>)
      else (1, a))"

text \<open>
  The pair a call selects: the targets of the scan when the function takes its success
  branch, nothing otherwise.
\<close>

definition selected :: "cc_args \<Rightarrow> (nat \<times> nat) option" where
  "selected a =
     (let s = scanPairs a in
      if maxArea s > 0 then Some (iTarget s, jTarget s) else None)"

text \<open>
  Reading a vector past its end is undefined behaviour; the caller passes marker
  vectors as long as the region vectors, and a code inside the output array.
\<close>

definition wf_args :: "cc_args \<Rightarrow> nat \<Rightarrow> bool" where
  "wf_args a code \<longleftrightarrow>
     length (usedA a) = length (rectsChA a) \<and>
     length (usedB a) = length (rectsChB a) \<and>
     code < length (ccRects a)"

text \<open>
  A candidate pair: both regions exist, both markers say unused, and the intersection
  has positive area.
\<close>

definition cand :: "cc_args \<Rightarrow> nat \<Rightarrow> nat \<Rightarrow> bool" where
  "cand a i j \<longleftrightarrow>
     i < length (rectsChA a) \<and> j < length (rectsChB a) \<and>
     usedA a ! i = 0 \<and> usedB a ! j = 0 \<and>
     0 < area (rect_and (rectsChA a ! i) (rectsChB a ! j))"

definition unionArea :: "cc_args \<Rightarrow> nat \<Rightarrow> nat \<Rightarrow> int" where
  "unionArea a i j = area (rect_or (rectsChA a ! i) (rectsChB a ! j))"

text \<open>The order in which the loops visit the pairs.\<close>

definition before :: "nat \<Rightarrow> nat \<Rightarrow> nat \<Rightarrow> nat \<Rightarrow> bool" where
  "before i' j' i j \<longleftrightarrow> i' < i \<or> (i' = i \<and> j' < j)"

text \<open>
  The loop invariant when the loops are about to visit the pair \<open>(i, j)\<close>: either no
  candidate was visited and the locals are untouched, or the locals hold the first
  visited candidate of the largest union area seen.
\<close>

definition scan_inv :: "cc_args \<Rightarrow> nat \<Rightarrow> nat \<Rightarrow> scan \<Rightarrow> bool" where
  "scan_inv a i j s \<longleftrightarrow>
     (s = scan0 \<and> (\<forall>i' j'. before i' j' i j \<longrightarrow> \<not> cand a i' j')) \<or>
     (0 < maxArea s \<and> cand a (iTarget s) (jTarget s) \<and>
      before (iTarget s) (jTarget s) i j \<and>
      selectedRect s = rect_or (rectsChA a ! iTarget s) (rectsChB a ! jTarget s) \<and>
      maxArea s = unionArea a (iTarget s) (jTarget s) \<and>
      (\<forall>i' j'. before i' j' i j \<longrightarrow> cand a i' j' \<longrightarrow> unionArea a i' j' \<le> maxArea s) \<and>
      (\<forall>i' j'. before i' j' (iTarget s) (jTarget s) \<longrightarrow> cand a i' j' \<longrightarrow>
         unionArea a i' j' < maxArea s))"



section \<open>The three matching passes of \<^verbatim>\<open>detectCCBlobs\<close>\<close>

text \<open>
  The locals of \<^verbatim>\<open>detectCCBlobs\<close> that lines 208 to 220 use: the three region vectors
  (after extraction and dilation), their marker vectors and the output array.
\<close>

record frame =
  myFilteredRects1 :: "rect list"
  myFilteredRects2 :: "rect list"
  myFilteredRects3 :: "rect list"
  usedRectsCh1 :: "int list"
  usedRectsCh2 :: "int list"
  usedRectsCh3 :: "int list"
  myCCRects :: "rect list"

text \<open>
  Lines 181 and 208 to 210: \<^verbatim>\<open>Rect myCCRects[21]\<close> is default-constructed, the marker
  vectors are as long as the region vectors and filled with 0.
\<close>

definition initFrame :: "rect list \<Rightarrow> rect list \<Rightarrow> rect list \<Rightarrow> frame" where
  "initFrame R1 R2 R3 =
     \<lparr>myFilteredRects1 = R1, myFilteredRects2 = R2, myFilteredRects3 = R3,
      usedRectsCh1 = replicate (length R1) 0,
      usedRectsCh2 = replicate (length R2) 0,
      usedRectsCh3 = replicate (length R3) 0,
      myCCRects = replicate 21 Rect0\<rparr>"

text \<open>The arguments of the three calls, as the locals are bound to the parameters.\<close>

definition args12 :: "frame \<Rightarrow> cc_args" where
  "args12 f = \<lparr>rectsChA = myFilteredRects1 f, rectsChB = myFilteredRects2 f,
               usedA = usedRectsCh1 f, usedB = usedRectsCh2 f, ccRects = myCCRects f\<rparr>"

definition args13 :: "frame \<Rightarrow> cc_args" where
  "args13 f = \<lparr>rectsChA = myFilteredRects1 f, rectsChB = myFilteredRects3 f,
               usedA = usedRectsCh1 f, usedB = usedRectsCh3 f, ccRects = myCCRects f\<rparr>"

definition args23 :: "frame \<Rightarrow> cc_args" where
  "args23 f = \<lparr>rectsChA = myFilteredRects2 f, rectsChB = myFilteredRects3 f,
               usedA = usedRectsCh2 f, usedB = usedRectsCh3 f, ccRects = myCCRects f\<rparr>"

text \<open>
  Each call, with the by-reference arguments written back to the locals. Drawing the
  rectangle on the image has no effect on these locals and is left out.
\<close>

definition pass12 :: "frame \<Rightarrow> int \<times> frame" where
  "pass12 f =
     (case getCCRectBinary (args12 f) 0 of
        (r, a) \<Rightarrow>
          (r, f\<lparr>myFilteredRects1 := rectsChA a, myFilteredRects2 := rectsChB a,
                usedRectsCh1 := usedA a, usedRectsCh2 := usedB a, myCCRects := ccRects a\<rparr>))"

definition pass13 :: "frame \<Rightarrow> int \<times> frame" where
  "pass13 f =
     (case getCCRectBinary (args13 f) 1 of
        (r, a) \<Rightarrow>
          (r, f\<lparr>myFilteredRects1 := rectsChA a, myFilteredRects3 := rectsChB a,
                usedRectsCh1 := usedA a, usedRectsCh3 := usedB a, myCCRects := ccRects a\<rparr>))"

definition pass23 :: "frame \<Rightarrow> int \<times> frame" where
  "pass23 f =
     (case getCCRectBinary (args23 f) 2 of
        (r, a) \<Rightarrow>
          (r, f\<lparr>myFilteredRects2 := rectsChA a, myFilteredRects3 := rectsChB a,
                usedRectsCh2 := usedA a, usedRectsCh3 := usedB a, myCCRects := ccRects a\<rparr>))"

text \<open>The locals after the first and after the second call.\<close>

definition afterPass12 :: "rect list \<Rightarrow> rect list \<Rightarrow> rect list \<Rightarrow> frame" where
  "afterPass12 R1 R2 R3 = snd (pass12 (initFrame R1 R2 R3))"

definition afterPass13 :: "rect list \<Rightarrow> rect list \<Rightarrow> rect list \<Rightarrow> frame" where
  "afterPass13 R1 R2 R3 = snd (pass13 (afterPass12 R1 R2 R3))"

text \<open>Lines 208 to 220: the three return values and the locals at the end.\<close>

definition matchCCBlobs ::
  "rect list \<Rightarrow> rect list \<Rightarrow> rect list \<Rightarrow> (int \<times> int \<times> int) \<times> frame" where
  "matchCCBlobs R1 R2 R3 =
     (let f0 = initFrame R1 R2 R3;
          (c0, f1) = pass12 f0;
          (c1, f2) = pass13 f1;
          (c2, f3) = pass23 f2
      in ((c0, c1, c2), f3))"



section \<open>The region expander \<^verbatim>\<open>dilateRects\<close>\<close>

text \<open>Division of C++ \<^verbatim>\<open>int\<close>s: the quotient is truncated towards zero.\<close>

definition c_div :: "int \<Rightarrow> int \<Rightarrow> int" where
  "c_div a b = (if (a < 0) = (b < 0) then \<bar>a\<bar> div \<bar>b\<bar> else - (\<bar>a\<bar> div \<bar>b\<bar>))"

text \<open>The body of the loop, lines 262 to 267, on the element \<^verbatim>\<open>myRect[i]\<close>.\<close>

definition dilateBody :: "int \<Rightarrow> rect \<Rightarrow> rect" where
  "dilateBody factor r =
     (let dW = c_div (rect_width r * factor) 100;
          dH = c_div (rect_height r * factor) 100;
          r = r\<lparr>rect_width := rect_width r + dW\<rparr>;
          r = r\<lparr>rect_height := rect_height r + dH\<rparr>;
          r = r\<lparr>rect_x := rect_x r - c_div dW 2\<rparr>;
          r = r\<lparr>rect_y := rect_y r - c_div dH 2\<rparr>
      in r)"

function dilateLoop :: "int \<Rightarrow> nat \<Rightarrow> nat \<Rightarrow> rect list \<Rightarrow> rect list" where
  "dilateLoop factor i count myRect =
     (if i < count
      then dilateLoop factor (Suc i) count (myRect[i := dilateBody factor (myRect ! i)])
      else myRect)"
  by pat_completeness auto
termination
  by (relation "measure (\<lambda>(factor, i, count, myRect). count - i)") auto

declare dilateLoop.simps [simp del]

definition dilateRects :: "int \<Rightarrow> rect list \<Rightarrow> rect list" where
  "dilateRects factor myRect = dilateLoop factor 0 (length myRect) myRect"

text \<open>
  The expansion in the words of the spec: the new extent is the old one plus the
  truncated percentage, and the corner moves back by half of the growth.
\<close>

definition expanded_spec :: "int \<Rightarrow> rect \<Rightarrow> rect" where
  "expanded_spec factor r =
     (let newWidth = rect_width r + c_div (rect_width r * factor) 100;
          newHeight = rect_height r + c_div (rect_height r * factor) 100;
          deltaWidth = newWidth - rect_width r;
          deltaHeight = newHeight - rect_height r
      in \<lparr>rect_x = rect_x r - c_div deltaWidth 2, rect_y = rect_y r - c_div deltaHeight 2,
          rect_width = newWidth, rect_height = newHeight\<rparr>)"

text \<open>Twice the centre of a rectangle, to stay within the integers.\<close>

definition centre2_x :: "rect \<Rightarrow> int" where
  "centre2_x r = 2 * rect_x r + rect_width r"

definition centre2_y :: "rect \<Rightarrow> int" where
  "centre2_y r = 2 * rect_y r + rect_height r"

text \<open>The centre in whole pixels, with the half extent truncated as C++ does.\<close>

definition centre_x :: "rect \<Rightarrow> int" where
  "centre_x r = rect_x r + c_div (rect_width r) 2"

definition centre_y :: "rect \<Rightarrow> int" where
  "centre_y r = rect_y r + c_div (rect_height r) 2"

section \<open>The region extractor \<^verbatim>\<open>getThresholdRects\<close>\<close>

definition MINAREABLOB :: int where
  "MINAREABLOB = 64"

text \<open>
  The loop of lines 239 to 245. The contours come from OpenCV's \<^verbatim>\<open>findContours\<close>, and
  the bounding box of a contour from \<^verbatim>\<open>approxPolyDP\<close> followed by \<^verbatim>\<open>boundingRect\<close>;
  both are library code and enter the model as the parameters \<open>findContours\<close> and
  \<open>boundingRectOf\<close>. The vector \<^verbatim>\<open>filteredRect\<close> is passed by reference and only
  appended to.
\<close>

function thresholdLoop ::
  "('c \<Rightarrow> rect) \<Rightarrow> nat \<Rightarrow> 'c list \<Rightarrow> rect list \<Rightarrow> rect list" where
  "thresholdLoop boundingRectOf i contours filteredRect =
     (if i < length contours then
        (let boundRect = boundingRectOf (contours ! i) in
         thresholdLoop boundingRectOf (Suc i) contours
           (if area boundRect > MINAREABLOB then filteredRect @ [boundRect] else filteredRect))
      else filteredRect)"
  by pat_completeness auto
termination
  by (relation "measure (\<lambda>(b, i, contours, filteredRect). length contours - i)") auto

declare thresholdLoop.simps [simp del]

definition getThresholdRects ::
  "('m \<Rightarrow> 'c list) \<Rightarrow> ('c \<Rightarrow> rect) \<Rightarrow> 'm \<Rightarrow> rect list \<Rightarrow> rect list" where
  "getThresholdRects findContours boundingRectOf myImgThresh filteredRect =
     thresholdLoop boundingRectOf 0 (findContours myImgThresh) filteredRect"


section \<open>The calibration sampler \<^verbatim>\<open>getBoundingBoxHSV\<close>\<close>

text \<open>
  A pixel of the HSV image is a \<^verbatim>\<open>Vec3b\<close>: three \<^verbatim>\<open>uchar\<close> components, read with
  \<^verbatim>\<open>val[a]\<close> for \<open>a\<close> in 0, 1, 2.
\<close>

type_synonym uchar = "8 word"

datatype vec3b = Vec3b uchar uchar uchar

fun val :: "vec3b \<Rightarrow> nat \<Rightarrow> uchar" where
  "val (Vec3b h s v) a = (if a = 0 then h else if a = 1 then s else v)"

text \<open>
  The image: its size and its pixels by row and column. Only the pixels inside the size
  belong to the matrix.
\<close>

record mat =
  rows :: int
  cols :: int
  pixel :: "int \<Rightarrow> int \<Rightarrow> vec3b"

text \<open>
  Modelled from the spec: \<^verbatim>\<open>Mat::at<Vec3b>(row, col)\<close> is OpenCV code outside the
  repository. The spec requires the coordinates of the calibration box to be inside the
  frame bounds; an access outside the matrix has no defined result (OpenCV asserts the
  bounds in a debug build and reads foreign memory otherwise), which the model writes as
  \<open>None\<close>.
\<close>

definition mat_at :: "mat \<Rightarrow> int \<Rightarrow> int \<Rightarrow> vec3b option" where
  "mat_at m row col =
     (if 0 \<le> row \<and> row < rows m \<and> 0 \<le> col \<and> col < cols m
      then Some (pixel m row col) else None)"

text \<open>
  Lines 397 to 399. The pair of arrays is written \<open>(MINHSV, MAXHSV)\<close>; an \<^verbatim>\<open>int\<close>
  array is a list, and the caller passes rows of length 3.
\<close>

function resetLoop :: "nat \<Rightarrow> int list \<times> int list \<Rightarrow> int list \<times> int list" where
  "resetLoop a (MINHSV, MAXHSV) =
     (if a < 3 then resetLoop (Suc a) (MINHSV[a := 255], MAXHSV[a := 0])
      else (MINHSV, MAXHSV))"
  by pat_completeness auto
termination
  by (relation "measure (\<lambda>(a, st). 3 - a)") auto

text \<open>
  Lines 404 to 407: the \<^verbatim>\<open>uchar\<close> component is promoted to \<^verbatim>\<open>int\<close> for the comparison
  and the assignment.
\<close>

function loopA :: "vec3b \<Rightarrow> nat \<Rightarrow> int list \<times> int list \<Rightarrow> int list \<times> int list" where
  "loopA intensity a (MINHSV, MAXHSV) =
     (if a < 3 then
        (let MAXHSV = (if uint (val intensity a) > MAXHSV ! a
                       then MAXHSV[a := uint (val intensity a)] else MAXHSV);
             MINHSV = (if uint (val intensity a) < MINHSV ! a
                       then MINHSV[a := uint (val intensity a)] else MINHSV)
         in loopA intensity (Suc a) (MINHSV, MAXHSV))
      else (MINHSV, MAXHSV))"
  by pat_completeness auto
termination
  by (relation "measure (\<lambda>(intensity, a, st). 3 - a)") auto

text \<open>The loop over \<open>j\<close>, lines 402 to 408, for the column \<open>i\<close>.\<close>

function loopRow ::
  "mat \<Rightarrow> int list \<Rightarrow> int \<Rightarrow> int \<Rightarrow> int list \<times> int list \<Rightarrow> (int list \<times> int list) option" where
  "loopRow myImgHSV BOX i j st =
     (if j < BOX ! 3 then
        (case mat_at myImgHSV j i of
           None \<Rightarrow> None
         | Some intensity \<Rightarrow> loopRow myImgHSV BOX i (j + 1) (loopA intensity 0 st))
      else Some st)"
  by pat_completeness auto
termination
  by (relation "measure (\<lambda>(myImgHSV, BOX, i, j, st). nat (BOX ! 3 - j))") auto

text \<open>The loop over \<open>i\<close>, lines 401 to 409.\<close>

function loopCol ::
  "mat \<Rightarrow> int list \<Rightarrow> int \<Rightarrow> int list \<times> int list \<Rightarrow> (int list \<times> int list) option" where
  "loopCol myImgHSV BOX i st =
     (if i < BOX ! 2 then
        (case loopRow myImgHSV BOX i (BOX ! 1) st of
           None \<Rightarrow> None
         | Some st' \<Rightarrow> loopCol myImgHSV BOX (i + 1) st')
      else Some st)"
  by pat_completeness auto
termination
  by (relation "measure (\<lambda>(myImgHSV, BOX, i, st). nat (BOX ! 2 - i))") auto

declare resetLoop.simps [simp del] loopA.simps [simp del]
  loopRow.simps [simp del] loopCol.simps [simp del]

text \<open>
  The function returns the two arrays as they are after the call, or \<open>None\<close> when it
  reads outside the image.
\<close>

definition getBoundingBoxHSV ::
  "mat \<Rightarrow> int list \<Rightarrow> int list \<Rightarrow> int list \<Rightarrow> (int list \<times> int list) option" where
  "getBoundingBoxHSV myImgHSV BOX MINHSV MAXHSV =
     loopCol myImgHSV BOX (BOX ! 0) (resetLoop 0 (MINHSV, MAXHSV))"

text \<open>The value of component \<open>a\<close> of the pixel in column \<open>i\<close> and row \<open>j\<close>.\<close>

definition component :: "mat \<Rightarrow> nat \<Rightarrow> int \<times> int \<Rightarrow> int" where
  "component m a = (\<lambda>(i, j). uint (val (pixel m j i) a))"

text \<open>
  The pixels the loops scan for a box: the left and the top edge are included, the right
  and the bottom edge are not.
\<close>

definition scanned :: "int \<Rightarrow> int \<Rightarrow> int \<Rightarrow> int \<Rightarrow> (int \<times> int) set" where
  "scanned x1 y1 x2 y2 = {x1..<x2} \<times> {y1..<y2}"

text \<open>The coordinates (column, row) that lie inside the matrix.\<close>

definition inb :: "mat \<Rightarrow> int \<times> int \<Rightarrow> bool" where
  "inb m = (\<lambda>(i, j). 0 \<le> j \<and> j < rows m \<and> 0 \<le> i \<and> i < cols m)"

text \<open>
  The loop invariant: after the pixels of \<open>S\<close> the arrays hold the smallest and the
  largest component values seen, starting from 255 and 0.
\<close>

definition hsv_inv :: "mat \<Rightarrow> (int \<times> int) set \<Rightarrow> int list \<times> int list \<Rightarrow> bool" where
  "hsv_inv m S st \<longleftrightarrow>
     length (fst st) = 3 \<and> length (snd st) = 3 \<and>
     (\<forall>a<3. fst st ! a = Min (insert 255 (component m a ` S)) \<and>
            snd st ! a = Max (insert 0 (component m a ` S)))"


section \<open>The configuration file: \<^verbatim>\<open>saveConfigFile\<close> and \<^verbatim>\<open>loadConfigFile\<close>\<close>

text \<open>
  The two functions write and read the text file \<^verbatim>\<open>babyMotionConfig.txt\<close> with
  \<^verbatim>\<open>fprintf\<close> and \<^verbatim>\<open>fscanf\<close> and the same format string. The model has the content
  of the file as a string, and the part of the C library the format uses: ordinary
  characters, white space, and the conversion \<^verbatim>\<open>%d\<close>.
\<close>

text \<open>The format string of both calls; it ends with a newline.\<close>

definition FORMAT :: string where
  "FORMAT = ''channel %d, HSVMIN{%d,%d,%d}, HSVMAX{%d,%d,%d}'' @ [CHR 0x0A]"

text \<open>\<^verbatim>\<open>isspace\<close> and \<^verbatim>\<open>isdigit\<close> in the C locale.\<close>

definition isspace :: "char \<Rightarrow> bool" where
  "isspace c \<longleftrightarrow> c = CHR '' '' \<or> (9 \<le> (of_char c :: nat) \<and> (of_char c :: nat) \<le> 13)"

definition isdigit :: "char \<Rightarrow> bool" where
  "isdigit c \<longleftrightarrow> 48 \<le> (of_char c :: nat) \<and> (of_char c :: nat) \<le> 57"

text \<open>The character \<^verbatim>\<open>'0' + d\<close> of a digit, and the digit \<^verbatim>\<open>c - '0'\<close> of a character.\<close>

definition digit_char :: "nat \<Rightarrow> char" where
  "digit_char d = char_of (48 + d)"

definition digit_val :: "char \<Rightarrow> nat" where
  "digit_val c = of_char c - 48"

subsection \<open>Writing\<close>

text \<open>
  What \<^verbatim>\<open>%d\<close> prints: the decimal digits, without leading zeros, after a minus sign
  for a negative value.
\<close>

fun dec :: "nat \<Rightarrow> string" where
  "dec n = (if n < 10 then [digit_char n] else dec (n div 10) @ [digit_char (n mod 10)])"

declare dec.simps [simp del]

definition print_int :: "int \<Rightarrow> string" where
  "print_int v = (if v < 0 then CHR ''-'' # dec (nat (- v)) else dec (nat v))"

text \<open>
  \<^verbatim>\<open>fprintf\<close> for a format of ordinary characters and \<^verbatim>\<open>%d\<close>: the text it appends to
  the file. (With fewer arguments than conversions the C call is undefined; the model
  stops printing.)
\<close>

fun fprintf :: "string \<Rightarrow> int list \<Rightarrow> string" where
  "fprintf [] args = []"
| "fprintf [c] args = [c]"
| "fprintf (c # d # fmt) args =
     (if c = CHR ''%'' \<and> d = CHR ''d'' then
        (case args of [] \<Rightarrow> [] | v # args' \<Rightarrow> print_int v @ fprintf fmt args')
      else c # fprintf (d # fmt) args)"

subsection \<open>Reading\<close>

text \<open>
  The conversion \<^verbatim>\<open>%d\<close>: white space is skipped, then an optional sign and the longest
  run of digits are read and the digits are accumulated in base 10. Without a digit the
  conversion fails. The result is the value, if any, and the input that remains. (The
  values are not bounded here; the program reads back what it printed from \<^verbatim>\<open>int\<close>s.)
\<close>

definition scan_sign :: "string \<Rightarrow> bool \<times> string" where
  "scan_sign inp =
     (case inp of
        [] \<Rightarrow> (False, [])
      | c # r \<Rightarrow>
          if c = CHR ''-'' then (True, r) else if c = CHR ''+'' then (False, r) else (False, inp))"

definition scan_digits :: "string \<Rightarrow> nat option \<times> string" where
  "scan_digits inp =
     (let ds = takeWhile isdigit inp in
      if ds = [] then (None, inp)
      else (Some (foldl (\<lambda>acc c. 10 * acc + digit_val c) 0 ds), dropWhile isdigit inp))"

definition scan_int :: "string \<Rightarrow> int option \<times> string" where
  "scan_int inp =
     (case scan_sign (dropWhile isspace inp) of
        (neg, inp') \<Rightarrow>
          (case scan_digits inp' of
             (None, r) \<Rightarrow> (None, r)
           | (Some n, r) \<Rightarrow> (Some (if neg then - int n else int n), r)))"

text \<open>
  \<^verbatim>\<open>fscanf\<close> for a format of ordinary characters, white space and \<^verbatim>\<open>%d\<close>: the values
  converted, in order, and the input that remains. A white-space directive skips any
  white space; an ordinary character must be the next character of the input; the call
  ends at the first directive that fails.
\<close>

fun fscanf :: "string \<Rightarrow> string \<Rightarrow> int list \<times> string" where
  "fscanf [] inp = ([], inp)"
| "fscanf (c # fmt) inp =
     (if c = CHR ''%'' then
        (case fmt of
           [] \<Rightarrow> ([], inp)
         | d # fmt' \<Rightarrow>
             if d = CHR ''d'' then
               (case scan_int inp of
                  (None, inp') \<Rightarrow> ([], inp')
                | (Some v, inp') \<Rightarrow> (case fscanf fmt' inp' of (vs, r) \<Rightarrow> (v # vs, r)))
             else ([], inp))
      else if isspace c then fscanf fmt (dropWhile isspace inp)
      else
        (case inp of
           [] \<Rightarrow> ([], [])
         | x # inp' \<Rightarrow> if x = c then fscanf fmt inp' else ([], inp)))"

subsection \<open>The two functions\<close>

text \<open>
  The file system as far as the program sees it: the content of the file, if it exists,
  and whether it can be opened for writing. \<^verbatim>\<open>fopen\<close> for reading fails when the file
  does not exist.
\<close>

record filesys =
  contents :: "string option"
  writable :: bool

text \<open>The text that the call of \<^verbatim>\<open>fprintf\<close> in line 534 appends for channel \<open>i\<close>.\<close>

definition config_line :: "int list list \<Rightarrow> int list list \<Rightarrow> nat \<Rightarrow> string" where
  "config_line MINs MAXs i =
     fprintf FORMAT
       [int i, MINs ! i ! 0, MINs ! i ! 1, MINs ! i ! 2, MAXs ! i ! 0, MAXs ! i ! 1, MAXs ! i ! 2]"

text \<open>
  An array \<^verbatim>\<open>int MIN[][3]\<close> is a list of rows; the parameters \<^verbatim>\<open>MIN\<close> and \<^verbatim>\<open>MAX\<close>
  are written \<open>MINs\<close> and \<open>MAXs\<close>. Lines 533 to 535: one line per channel
  is appended to the file, which \<^verbatim>\<open>fopen\<close> with mode \<^verbatim>\<open>"w"\<close> has emptied.
\<close>

function saveLoop :: "nat \<Rightarrow> nat \<Rightarrow> int list list \<Rightarrow> int list list \<Rightarrow> string \<Rightarrow> string" where
  "saveLoop i nChannels MINs MAXs out =
     (if i < nChannels then
        saveLoop (Suc i) nChannels MINs MAXs (out @ config_line MINs MAXs i)
      else out)"
  by pat_completeness auto
termination
  by (relation "measure (\<lambda>(i, nChannels, MINs, MAXs, out). nChannels - i)") auto

definition saveConfigFile :: "filesys \<Rightarrow> int list list \<Rightarrow> int list list \<Rightarrow> nat \<Rightarrow> int \<times> filesys" where
  "saveConfigFile fs MINs MAXs nChannels =
     (if \<not> writable fs then (1, fs)
      else (0, fs\<lparr>contents := Some (saveLoop 0 nChannels MINs MAXs [])\<rparr>))"

text \<open>
  \<^verbatim>\<open>fscanf\<close> stores the converted values, in order, through its pointer arguments; the
  targets of conversions that did not take place keep their values. \<open>store row vs\<close> is
  a row of an array after the values \<open>vs\<close> were stored into its first elements.
\<close>

definition store :: "int list \<Rightarrow> int list \<Rightarrow> int list" where
  "store row vs = take (length row) vs @ drop (length vs) row"

text \<open>
  Lines 506 to 508. The first value goes to the local \<^verbatim>\<open>ch\<close>, the next three to
  \<^verbatim>\<open>MIN[i]\<close>, the last three to \<^verbatim>\<open>MAX[i]\<close>; the result of \<^verbatim>\<open>fscanf\<close> is not looked at.
\<close>

function loadLoop ::
  "nat \<Rightarrow> nat \<Rightarrow> string \<Rightarrow> int list list \<Rightarrow> int list list \<Rightarrow> int list list \<times> int list list" where
  "loadLoop i nChannels inp MINs MAXs =
     (if i < nChannels then
        (case fscanf FORMAT inp of
           (vs, inp') \<Rightarrow>
             loadLoop (Suc i) nChannels inp'
               (MINs[i := store (MINs ! i) (take 3 (drop 1 vs))])
               (MAXs[i := store (MAXs ! i) (take 3 (drop 4 vs))]))
      else (MINs, MAXs))"
  by pat_completeness auto
termination
  by (relation "measure (\<lambda>(i, nChannels, inp, MINs, MAXs). nChannels - i)") auto

declare saveLoop.simps [simp del] loadLoop.simps [simp del]

definition loadConfigFile ::
  "filesys \<Rightarrow> int list list \<Rightarrow> int list list \<Rightarrow> nat \<Rightarrow> int \<times> int list list \<times> int list list" where
  "loadConfigFile fs MINs MAXs nChannels =
     (case contents fs of
        None \<Rightarrow> (1, MINs, MAXs)
      | Some inp \<Rightarrow> (0, loadLoop 0 nChannels inp MINs MAXs))"

text \<open>An array of \<open>n\<close> rows of three elements.\<close>

definition rows3 :: "nat \<Rightarrow> int list list \<Rightarrow> bool" where
  "rows3 n M \<longleftrightarrow> length M = n \<and> (\<forall>i<n. length (M ! i) = 3)"


section \<open>Inputs used in the examples\<close>

text \<open>The constructor \<^verbatim>\<open>Rect(x, y, width, height)\<close>.\<close>

definition mkRect :: "int \<Rightarrow> int \<Rightarrow> int \<Rightarrow> int \<Rightarrow> rect" where
  "mkRect x y w h = \<lparr>rect_x = x, rect_y = y, rect_width = w, rect_height = h\<rparr>"

text \<open>One region per channel, both unused.\<close>

definition pairArgs :: "rect \<Rightarrow> rect \<Rightarrow> rect list \<Rightarrow> cc_args" where
  "pairArgs ra rb cc = \<lparr>rectsChA = [ra], rectsChB = [rb], usedA = [0], usedB = [0], ccRects = cc\<rparr>"

text \<open>The spec's example of a choice among several pairs.\<close>

definition exA :: cc_args where
  "exA = \<lparr>rectsChA = [mkRect 0 0 10 10],
          rectsChB = [mkRect 5 5 4 4, mkRect 5 5 20 20],
          usedA = [0], usedB = [0, 0], ccRects = [Rect0, Rect0, Rect0]\<rparr>"

text \<open>
  The only overlapping pair has a used region of channel A; the unused region of
  channel A overlaps nothing.
\<close>

definition exNone :: cc_args where
  "exNone = \<lparr>rectsChA = [mkRect 0 0 10 10, mkRect 30 30 5 5],
             rectsChB = [mkRect 20 20 5 5, mkRect 5 5 10 10],
             usedA = [1, 0], usedB = [0, 0],
             ccRects = [mkRect 1 2 3 4, Rect0, Rect0]\<rparr>"

text \<open>
  A frame in which the region of channel 3 overlaps both regions of channel 1, with the
  larger union for the first, and the region of channel 2 overlaps the first region of
  channel 1 and the region of channel 3.
\<close>

definition exR1 :: "rect list" where
  "exR1 = [mkRect 0 0 10 10, mkRect 30 0 5 5]"

definition exR2 :: "rect list" where
  "exR2 = [mkRect 5 5 10 10]"

definition exR3 :: "rect list" where
  "exR3 = [mkRect 5 0 30 8]"

text \<open>A frame of 640 by 480 pixels of one colour.\<close>

definition exImg :: mat where
  "exImg = \<lparr>rows = 480, cols = 640, pixel = (\<lambda>r c. Vec3b 90 120 200)\<rparr>"

text \<open>A frame of two pixels with the values \<open>(3, 3, 3)\<close> and \<open>(7, 1, 9)\<close>.\<close>

definition exImg2 :: mat where
  "exImg2 = \<lparr>rows = 1, cols = 2, pixel = (\<lambda>r c. if c = 0 then Vec3b 3 3 3 else Vec3b 7 1 9)\<rparr>"

text \<open>
  A file system with an older file, three channels of thresholds, and the arrays as
  \<^verbatim>\<open>main\<close> initialises them.
\<close>

definition exFs :: filesys where
  "exFs = \<lparr>contents = Some ''old'', writable = True\<rparr>"

definition exMin :: "int list list" where
  "exMin = [[0, 92, 255], [9, 81, 165], [- 1, 20, 300]]"

definition exMax :: "int list list" where
  "exMax = [[12, 172, 255], [14, 154, 229], [7, 0, 2147483647]]"

definition defaultMin :: "int list list" where
  "defaultMin = [[255, 255, 255], [255, 255, 255], [255, 255, 255]]"

definition defaultMax :: "int list list" where
  "defaultMax = [[0, 0, 0], [0, 0, 0], [0, 0, 0]]"


section \<open>Properties of the matcher\<close>

lemma rect_and_pos:
  "0 < area (rect_and a b) \<Longrightarrow>
     0 < rect_width a \<and> 0 < rect_height a \<and> 0 < rect_width b \<and> 0 < rect_height b"
  by (auto simp: rect_and_def area_def Rect0_def Let_def split: if_splits)

lemma rect_or_pos:
  assumes "0 < rect_width a" "0 < rect_height a"
  shows "0 < area (rect_or a b)"
proof -
  have "0 < rect_width (rect_or a b)" "0 < rect_height (rect_or a b)"
    using assms by (auto simp: rect_or_def Let_def)
  then show ?thesis by (simp add: area_def)
qed

lemma cand_unionArea_pos: "cand a i j \<Longrightarrow> 0 < unionArea a i j"
  unfolding cand_def unionArea_def
  using rect_and_pos rect_or_pos by blast

lemma before_Suc: "before i' j' i (Suc j) \<longleftrightarrow> before i' j' i j \<or> (i' = i \<and> j' = j)"
  by (auto simp: before_def)

lemma scanBody_cand:
  "cand a i j \<Longrightarrow>
     scanBody a i j s =
       (if maxArea s < unionArea a i j
        then \<lparr>selectedRect = rect_or (rectsChA a ! i) (rectsChB a ! j),
              iTarget = i, jTarget = j, maxArea = unionArea a i j\<rparr>
        else s)"
  by (simp add: cand_def scanBody_def unionArea_def Let_def)

lemma scanBody_not_cand:
  "\<not> cand a i j \<Longrightarrow> i < length (rectsChA a) \<Longrightarrow> j < length (rectsChB a) \<Longrightarrow>
     scanBody a i j s = s"
  by (auto simp: cand_def scanBody_def Let_def)

lemma scan_inv_le:
  "scan_inv a i j s \<Longrightarrow> before i' j' i j \<Longrightarrow> cand a i' j' \<Longrightarrow> unionArea a i' j' \<le> maxArea s"
  unfolding scan_inv_def by blast

lemma scanBody_inv:
  assumes inv: "scan_inv a i j s"
    and i: "i < length (rectsChA a)" and j: "j < length (rectsChB a)"
  shows "scan_inv a i (Suc j) (scanBody a i j s)"
proof (cases "cand a i j")
  case False
  then have "scanBody a i j s = s" using i j by (rule scanBody_not_cand)
  with inv False show ?thesis
    unfolding scan_inv_def before_Suc by auto
next
  case True
  note pos = cand_unionArea_pos [OF True]
  show ?thesis
  proof (cases "maxArea s < unionArea a i j")
    case less: True
    define s' where "s' = \<lparr>selectedRect = rect_or (rectsChA a ! i) (rectsChB a ! j),
         iTarget = i, jTarget = j, maxArea = unionArea a i j\<rparr>"
    have eq: "scanBody a i j s = s'"
      using True less by (simp add: scanBody_cand s'_def)
    have le: "unionArea a i' j' < unionArea a i j" if "before i' j' i j" "cand a i' j'" for i' j'
      using scan_inv_le [OF inv that] less by simp
    have "0 < maxArea s' \<and> cand a (iTarget s') (jTarget s') \<and>
      before (iTarget s') (jTarget s') i (Suc j) \<and>
      selectedRect s' = rect_or (rectsChA a ! iTarget s') (rectsChB a ! jTarget s') \<and>
      maxArea s' = unionArea a (iTarget s') (jTarget s') \<and>
      (\<forall>i' j'. before i' j' i (Suc j) \<longrightarrow> cand a i' j' \<longrightarrow> unionArea a i' j' \<le> maxArea s') \<and>
      (\<forall>i' j'. before i' j' (iTarget s') (jTarget s') \<longrightarrow> cand a i' j' \<longrightarrow>
         unionArea a i' j' < maxArea s')"
      using True pos le by (auto simp: s'_def before_Suc dest: less_imp_le) 
    then show ?thesis unfolding eq scan_inv_def by blast
  next
    case False
    then have eq: "scanBody a i j s = s" using True by (simp add: scanBody_cand)
    from False pos have "s \<noteq> scan0" by (auto simp: scan0_def)
    with inv False show ?thesis
      unfolding scan_inv_def eq before_Suc by auto
  qed
qed

lemma loopJ_inv:
  "scan_inv a i j s \<Longrightarrow> i < length (rectsChA a) \<Longrightarrow> j \<le> jMax \<Longrightarrow> jMax = length (rectsChB a) \<Longrightarrow>
     scan_inv a i jMax (loopJ a i j jMax s)"
proof (induction a i j jMax s rule: loopJ.induct)
  case (1 a i j jMax s)
  show ?case
  proof (cases "j < jMax")
    case True
    have "scan_inv a i (Suc j) (scanBody a i j s)"
      using "1.prems" True by (intro scanBody_inv) auto
    then have "scan_inv a i jMax (loopJ a i (Suc j) jMax (scanBody a i j s))"
      using "1.prems" True by (intro "1.IH") auto
    then show ?thesis using True by (subst loopJ.simps) simp
  next
    case False
    with "1.prems" have "j = jMax" by simp
    with "1.prems" show ?thesis by (subst loopJ.simps) simp
  qed
qed

lemma scan_inv_next_row:
  assumes "scan_inv a i (length (rectsChB a)) s"
  shows "scan_inv a (Suc i) 0 s"
proof -
  have b: "before i' j' i (length (rectsChB a))" if "before i' j' (Suc i) 0" "cand a i' j'" for i' j'
    using that by (auto simp: before_def cand_def less_Suc_eq)
  have c: "before i' j' (Suc i) 0" if "before i' j' i j" for i' j' j
    using that by (auto simp: before_def)
  from assms show ?thesis
    unfolding scan_inv_def using b c by (elim disjE conjE) blast+
qed

lemma loopI_inv:
  "scan_inv a i 0 s \<Longrightarrow> i \<le> iMax \<Longrightarrow> iMax = length (rectsChA a) \<Longrightarrow> jMax = length (rectsChB a) \<Longrightarrow>
     scan_inv a iMax 0 (loopI a i iMax jMax s)"
proof (induction a i iMax jMax s rule: loopI.induct)
  case (1 a i iMax jMax s)
  show ?case
  proof (cases "i < iMax")
    case True
    have "scan_inv a i jMax (loopJ a i 0 jMax s)"
      using "1.prems" True by (intro loopJ_inv) auto
    then have "scan_inv a (Suc i) 0 (loopJ a i 0 jMax s)"
      using "1.prems" by (simp add: scan_inv_next_row)
    then have "scan_inv a iMax 0 (loopI a (Suc i) iMax jMax (loopJ a i 0 jMax s))"
      using "1.prems" True by (intro "1.IH") auto
    then show ?thesis using True by (subst loopI.simps) simp
  next
    case False
    with "1.prems" have "i = iMax" by simp
    with "1.prems" show ?thesis by (subst loopI.simps) simp
  qed
qed

lemma scan_inv_init: "scan_inv a 0 0 scan0"
  by (simp add: scan_inv_def before_def)

lemma cand_before_end: "cand a i j \<Longrightarrow> before i j (length (rectsChA a)) 0"
  by (simp add: cand_def before_def)

lemma scanPairs_inv: "scan_inv a (length (rectsChA a)) 0 (scanPairs a)"
  unfolding scanPairs_def by (rule loopI_inv [OF scan_inv_init]) simp_all

text \<open>What the scan returns.\<close>

lemma scanPairs_none:
  assumes "\<forall>i j. \<not> cand a i j"
  shows "scanPairs a = scan0"
  using scanPairs_inv [of a] assms unfolding scan_inv_def by blast

lemma scanPairs_some:
  assumes "cand a i0 j0"
  shows "0 < maxArea (scanPairs a) \<and>
         cand a (iTarget (scanPairs a)) (jTarget (scanPairs a)) \<and>
         selectedRect (scanPairs a) =
           rect_or (rectsChA a ! iTarget (scanPairs a)) (rectsChB a ! jTarget (scanPairs a)) \<and>
         (\<forall>i j. cand a i j \<longrightarrow>
            unionArea a i j \<le> unionArea a (iTarget (scanPairs a)) (jTarget (scanPairs a))) \<and>
         (\<forall>i j. cand a i j \<longrightarrow> before i j (iTarget (scanPairs a)) (jTarget (scanPairs a)) \<longrightarrow>
            unionArea a i j < unionArea a (iTarget (scanPairs a)) (jTarget (scanPairs a)))"
proof -
  let ?s = "scanPairs a"
  note inv = scanPairs_inv [of a]
  from assms cand_before_end have "\<not> (\<forall>i' j'. before i' j' (length (rectsChA a)) 0 \<longrightarrow> \<not> cand a i' j')"
    by blast
  with inv have *: "0 < maxArea ?s" "cand a (iTarget ?s) (jTarget ?s)"
      "selectedRect ?s = rect_or (rectsChA a ! iTarget ?s) (rectsChB a ! jTarget ?s)"
      "maxArea ?s = unionArea a (iTarget ?s) (jTarget ?s)"
      "\<forall>i' j'. before i' j' (length (rectsChA a)) 0 \<longrightarrow> cand a i' j' \<longrightarrow> unionArea a i' j' \<le> maxArea ?s"
      "\<forall>i' j'. before i' j' (iTarget ?s) (jTarget ?s) \<longrightarrow> cand a i' j' \<longrightarrow> unionArea a i' j' < maxArea ?s"
    unfolding scan_inv_def by blast+
  from * cand_before_end show ?thesis by auto
qed



text \<open>What a call does, in both outcomes; the selected pair is the first of largest union area.\<close>

lemma getCCRectBinary_cases:
  "(\<exists>i j. cand a i j \<and>
      (\<forall>i' j'. cand a i' j' \<longrightarrow> unionArea a i' j' \<le> unionArea a i j) \<and>
      (\<forall>i' j'. cand a i' j' \<longrightarrow> before i' j' i j \<longrightarrow> unionArea a i' j' < unionArea a i j) \<and>
      selected a = Some (i, j) \<and>
      getCCRectBinary a code =
        (0, a\<lparr>ccRects := (ccRects a)[code := rect_or (rectsChA a ! i) (rectsChB a ! j)],
              usedA := (usedA a)[i := 1], usedB := (usedB a)[j := 1]\<rparr>)) \<or>
   ((\<forall>i j. \<not> cand a i j) \<and> selected a = None \<and> getCCRectBinary a code = (1, a))"
proof (cases "\<exists>i j. cand a i j")
  case True
  then obtain i0 j0 where "cand a i0 j0" by blast
  note s = scanPairs_some [OF this]
  let ?i = "iTarget (scanPairs a)" and ?j = "jTarget (scanPairs a)"
  have "selected a = Some (?i, ?j)"
    using s by (simp add: selected_def Let_def)
  moreover have "getCCRectBinary a code =
        (0, a\<lparr>ccRects := (ccRects a)[code := rect_or (rectsChA a ! ?i) (rectsChB a ! ?j)],
              usedA := (usedA a)[?i := 1], usedB := (usedB a)[?j := 1]\<rparr>)"
    using s by (simp add: getCCRectBinary_def Let_def)
  ultimately show ?thesis using s by blast
next
  case False
  then have none: "\<forall>i j. \<not> cand a i j" by blast
  then have "scanPairs a = scan0" by (rule scanPairs_none)
  then have "selected a = None" "getCCRectBinary a code = (1, a)"
    by (simp_all add: selected_def getCCRectBinary_def scan0_def Let_def)
  with none show ?thesis by blast
qed


subsection \<open>Selection of the largest union\<close>

text \<open>
  Claim C1. With marker vectors as long as the region vectors and the code inside the
  output array, \<^verbatim>\<open>getCCRectBinary\<close> has two outcomes. Either there is a candidate pair
  (both markers 0, intersection of positive area): then the function picks a candidate
  whose union rectangle has the largest area among all candidates, stores that union in
  the output slot of the code, sets the markers of the two regions to 1 and returns 0.
  Or there is no candidate: then it returns 1 and changes nothing.
\<close>

theorem getCCRectBinary_selects_largest_union:
  assumes "wf_args a code"
  shows "(\<exists>i j. cand a i j \<and>
            (\<forall>i' j'. cand a i' j' \<longrightarrow> unionArea a i' j' \<le> unionArea a i j) \<and>
            getCCRectBinary a code =
              (0, a\<lparr>ccRects := (ccRects a)[code := rect_or (rectsChA a ! i) (rectsChB a ! j)],
                    usedA := (usedA a)[i := 1], usedB := (usedB a)[j := 1]\<rparr>) \<and>
            ccRects (snd (getCCRectBinary a code)) ! code =
              rect_or (rectsChA a ! i) (rectsChB a ! j) \<and>
            usedA (snd (getCCRectBinary a code)) ! i = 1 \<and>
            usedB (snd (getCCRectBinary a code)) ! j = 1) \<or>
         ((\<forall>i j. \<not> cand a i j) \<and> getCCRectBinary a code = (1, a))"
  using getCCRectBinary_cases [of a code]
proof (elim disjE exE conjE)
  fix i j
  assume c: "cand a i j"
    and m: "\<forall>i' j'. cand a i' j' \<longrightarrow> unionArea a i' j' \<le> unionArea a i j"
    and g: "getCCRectBinary a code =
        (0, a\<lparr>ccRects := (ccRects a)[code := rect_or (rectsChA a ! i) (rectsChB a ! j)],
              usedA := (usedA a)[i := 1], usedB := (usedB a)[j := 1]\<rparr>)"
  from c assms have "i < length (usedA a)" "j < length (usedB a)" "code < length (ccRects a)"
    by (simp_all add: cand_def wf_args_def)
  then have "ccRects (snd (getCCRectBinary a code)) ! code =
              rect_or (rectsChA a ! i) (rectsChB a ! j)"
     "usedA (snd (getCCRectBinary a code)) ! i = 1"
     "usedB (snd (getCCRectBinary a code)) ! j = 1"
    by (simp_all add: g)
  with c m g show ?thesis by blast
next
  assume "\<forall>i j. \<not> cand a i j" "getCCRectBinary a code = (1, a)"
  then show ?thesis by blast
qed


text \<open>
  The spec's example: of the two regions of channel B that overlap the region of channel
  A, the second gives the larger union \<open>(0, 0, 25, 25)\<close> and is the one marked.
\<close>

theorem getCCRectBinary_selects_largest_union_witness:
  "wf_args exA 0 \<and>
   getCCRectBinary exA 0 =
     (0, exA\<lparr>ccRects := [mkRect 0 0 25 25, Rect0, Rect0],
             usedA := [1], usedB := [0, 1]\<rparr>)"
proof -
  have wf: "wf_args exA 0" by (simp add: wf_args_def exA_def)
  have ev: "getCCRectBinary exA 0 =
     (0, exA\<lparr>ccRects := [mkRect 0 0 25 25, Rect0, Rect0],
             usedA := [1], usedB := [0, 1]\<rparr>)"
    by code_simp
  from getCCRectBinary_selects_largest_union [OF wf] wf ev show ?thesis by simp
qed


subsection \<open>A pair is matched exactly when it overlaps\<close>

lemma cand_pairArgs: "cand (pairArgs ra rb cc) i j \<longleftrightarrow> i = 0 \<and> j = 0 \<and> 0 < area (rect_and ra rb)"
  by (auto simp: cand_def pairArgs_def)

lemma selected_cand: "selected a = Some (i, j) \<Longrightarrow> cand a i j"
  using getCCRectBinary_cases [of a 0] by auto


text \<open>
  Claim C3. Presented with one unused region per channel, \<^verbatim>\<open>getCCRectBinary\<close> returns 0
  exactly when the intersection of the two has positive area; it then stores their union
  and marks both, and otherwise changes nothing. In any call, a selected pair has an
  intersection of positive area. The regions \<open>(0, 0, 10, 10)\<close> and \<open>(5, 5, 10, 10)\<close>
  overlap and their union is \<open>(0, 0, 15, 15)\<close>; \<open>(0, 0, 10, 10)\<close> and \<open>(20, 20, 5, 5)\<close>
  do not overlap.
\<close>

theorem pair_matched_iff_overlap:
  assumes "code < length cc"
  shows "(fst (getCCRectBinary (pairArgs ra rb cc) code) = 0 \<longleftrightarrow> 0 < area (rect_and ra rb)) \<and>
         (0 < area (rect_and ra rb) \<longrightarrow>
            getCCRectBinary (pairArgs ra rb cc) code =
              (0, \<lparr>rectsChA = [ra], rectsChB = [rb], usedA = [1], usedB = [1],
                   ccRects = cc[code := rect_or ra rb]\<rparr>)) \<and>
         (\<not> 0 < area (rect_and ra rb) \<longrightarrow>
            getCCRectBinary (pairArgs ra rb cc) code = (1, pairArgs ra rb cc)) \<and>
         (\<forall>a i j. selected a = Some (i, j) \<longrightarrow>
            0 < area (rect_and (rectsChA a ! i) (rectsChB a ! j))) \<and>
         0 < area (rect_and (mkRect 0 0 10 10) (mkRect 5 5 10 10)) \<and>
         rect_or (mkRect 0 0 10 10) (mkRect 5 5 10 10) = mkRect 0 0 15 15 \<and>
         \<not> 0 < area (rect_and (mkRect 0 0 10 10) (mkRect 20 20 5 5))"
proof -
  let ?a = "pairArgs ra rb cc"
  have yes: "getCCRectBinary ?a code =
              (0, \<lparr>rectsChA = [ra], rectsChB = [rb], usedA = [1], usedB = [1],
                   ccRects = cc[code := rect_or ra rb]\<rparr>)" if "0 < area (rect_and ra rb)"
    using getCCRectBinary_cases [of ?a code] that
    by (auto simp: cand_pairArgs) (simp add: pairArgs_def)
  have no: "getCCRectBinary ?a code = (1, ?a)" if "\<not> 0 < area (rect_and ra rb)"
    using getCCRectBinary_cases [of ?a code] that by (auto simp: cand_pairArgs)
  have iff: "fst (getCCRectBinary ?a code) = 0 \<longleftrightarrow> 0 < area (rect_and ra rb)"
    using yes no by (cases "0 < area (rect_and ra rb)") simp_all
  have sel: "\<forall>a i j. selected a = Some (i, j) \<longrightarrow>
            0 < area (rect_and (rectsChA a ! i) (rectsChB a ! j))"
    using selected_cand by (auto simp: cand_def)
  have ex: "0 < area (rect_and (mkRect 0 0 10 10) (mkRect 5 5 10 10))"
      "rect_or (mkRect 0 0 10 10) (mkRect 5 5 10 10) = mkRect 0 0 15 15"
      "\<not> 0 < area (rect_and (mkRect 0 0 10 10) (mkRect 20 20 5 5))"
    by (simp_all add: mkRect_def rect_and_def rect_or_def area_def Rect0_def Let_def)
  from iff yes no sel ex show ?thesis by blast
qed


text \<open>The two examples of the claim, run through the function.\<close>

theorem pair_matched_iff_overlap_witness:
  "(0::nat) < length (replicate 21 Rect0) \<and>
   getCCRectBinary (pairArgs (mkRect 0 0 10 10) (mkRect 5 5 10 10) (replicate 21 Rect0)) 0 =
     (0, \<lparr>rectsChA = [mkRect 0 0 10 10], rectsChB = [mkRect 5 5 10 10], usedA = [1], usedB = [1],
          ccRects = (replicate 21 Rect0)[0 := mkRect 0 0 15 15]\<rparr>) \<and>
   getCCRectBinary (pairArgs (mkRect 0 0 10 10) (mkRect 20 20 5 5) (replicate 21 Rect0)) 0 =
     (1, pairArgs (mkRect 0 0 10 10) (mkRect 20 20 5 5) (replicate 21 Rect0))"
proof -
  have l: "(0::nat) < length (replicate 21 Rect0)" by simp
  from pair_matched_iff_overlap [OF l, of "mkRect 0 0 10 10" "mkRect 5 5 10 10"]
       pair_matched_iff_overlap [OF l, of "mkRect 0 0 10 10" "mkRect 20 20 5 5"]
  show ?thesis by simp
qed


subsection \<open>No match changes nothing\<close>

text \<open>
  Claim C10. When there is no candidate pair the call returns 1 and all five arguments
  are as before the call: both region vectors, both marker vectors and the whole output
  array. Conversely a call that does not return 0 found no candidate and changed nothing.
\<close>

theorem no_match_leaves_state:
  assumes "wf_args a code"
  shows "((\<forall>i j. \<not> cand a i j) \<longrightarrow> getCCRectBinary a code = (1, a)) \<and>
         (fst (getCCRectBinary a code) \<noteq> 0 \<longrightarrow>
            (\<forall>i j. \<not> cand a i j) \<and> getCCRectBinary a code = (1, a))"
  using getCCRectBinary_cases [of a code] by auto


text \<open>
  An example in which the only overlapping pair is excluded by its marker: the result is
  1 and the arguments, with a non-default output slot among them, are returned as they
  were.
\<close>

theorem no_match_leaves_state_witness:
  "wf_args exNone 1 \<and> fst (getCCRectBinary exNone 1) \<noteq> 0 \<and> getCCRectBinary exNone 1 = (1, exNone)"
proof -
  have wf: "wf_args exNone 1" by (simp add: wf_args_def exNone_def)
  have ev: "fst (getCCRectBinary exNone 1) \<noteq> 0" by code_simp
  from no_match_leaves_state [OF wf] wf ev show ?thesis by simp
qed


subsection \<open>A used region is not selected again in the same frame\<close>

lemma getCCRectBinary_snd:
  "snd (getCCRectBinary a code) =
     (case selected a of
        None \<Rightarrow> a
      | Some (i, j) \<Rightarrow>
          a\<lparr>ccRects := (ccRects a)[code := rect_or (rectsChA a ! i) (rectsChB a ! j)],
            usedA := (usedA a)[i := 1], usedB := (usedB a)[j := 1]\<rparr>)"
  using getCCRectBinary_cases [of a code] by auto

lemma selected_unused:
  "selected a = Some (i, j) \<Longrightarrow>
     i < length (rectsChA a) \<and> j < length (rectsChB a) \<and> usedA a ! i = 0 \<and> usedB a ! j = 0"
  by (drule selected_cand) (simp add: cand_def)

lemma afterPass12_used:
  "usedRectsCh1 (afterPass12 R1 R2 R3) =
     (case selected (args12 (initFrame R1 R2 R3)) of
        None \<Rightarrow> replicate (length R1) 0 | Some (i, j) \<Rightarrow> (replicate (length R1) 0)[i := 1])"
  "usedRectsCh2 (afterPass12 R1 R2 R3) =
     (case selected (args12 (initFrame R1 R2 R3)) of
        None \<Rightarrow> replicate (length R2) 0 | Some (i, j) \<Rightarrow> (replicate (length R2) 0)[j := 1])"
  "usedRectsCh3 (afterPass12 R1 R2 R3) = replicate (length R3) 0"
  by (simp_all add: afterPass12_def pass12_def split_beta getCCRectBinary_snd args12_def initFrame_def
      split: option.split)

lemma afterPass13_used:
  "usedRectsCh1 (afterPass13 R1 R2 R3) =
     (case selected (args13 (afterPass12 R1 R2 R3)) of
        None \<Rightarrow> usedRectsCh1 (afterPass12 R1 R2 R3)
      | Some (i, k) \<Rightarrow> (usedRectsCh1 (afterPass12 R1 R2 R3))[i := 1])"
  "usedRectsCh2 (afterPass13 R1 R2 R3) = usedRectsCh2 (afterPass12 R1 R2 R3)"
  "usedRectsCh3 (afterPass13 R1 R2 R3) =
     (case selected (args13 (afterPass12 R1 R2 R3)) of
        None \<Rightarrow> usedRectsCh3 (afterPass12 R1 R2 R3)
      | Some (i, k) \<Rightarrow> (usedRectsCh3 (afterPass12 R1 R2 R3))[k := 1])"
  by (simp_all add: afterPass13_def pass13_def split_beta getCCRectBinary_snd args13_def
      split: option.split)

lemma afterPass_rects:
  "myFilteredRects1 (afterPass12 R1 R2 R3) = R1"
  "myFilteredRects2 (afterPass12 R1 R2 R3) = R2"
  "myFilteredRects3 (afterPass12 R1 R2 R3) = R3"
  "myFilteredRects1 (afterPass13 R1 R2 R3) = R1"
  "myFilteredRects2 (afterPass13 R1 R2 R3) = R2"
  "myFilteredRects3 (afterPass13 R1 R2 R3) = R3"
  by (simp_all add: afterPass13_def pass13_def afterPass12_def pass12_def split_beta
      getCCRectBinary_snd args13_def args12_def initFrame_def split: option.split)

lemma matchCCBlobs_passes:
  "matchCCBlobs R1 R2 R3 =
     ((fst (pass12 (initFrame R1 R2 R3)), fst (pass13 (afterPass12 R1 R2 R3)),
       fst (pass23 (afterPass13 R1 R2 R3))),
      snd (pass23 (afterPass13 R1 R2 R3)))"
  by (simp add: matchCCBlobs_def afterPass12_def afterPass13_def Let_def split_beta)


lemma getCCRectBinary_fst:
  "fst (getCCRectBinary a code) = (if selected a = None then 1 else 0)"
  using getCCRectBinary_cases [of a code] by auto

lemma pass_fst:
  "fst (pass12 f) = (if selected (args12 f) = None then 1 else 0)"
  "fst (pass13 f) = (if selected (args13 f) = None then 1 else 0)"
  "fst (pass23 f) = (if selected (args23 f) = None then 1 else 0)"
  by (simp_all add: pass12_def pass13_def pass23_def split_beta getCCRectBinary_fst)

text \<open>
  Claim C2. The three calls of one frame run on the locals as the calls before left
  them, and each returns 0 exactly when it selects a pair. The regions the pass over
  channels 1 and 2 selects carry the marker 1 afterwards and are selected neither by the pass over
  channels 1 and 3 nor by the pass over channels 2 and 3; the regions the second pass
  selects carry the marker 1 and are not selected by the third pass. More generally the
  second and the third pass select only regions whose marker is 0 when the pass starts.
\<close>

theorem used_region_not_selected_again:
  "matchCCBlobs R1 R2 R3 =
     ((fst (pass12 (initFrame R1 R2 R3)), fst (pass13 (afterPass12 R1 R2 R3)),
       fst (pass23 (afterPass13 R1 R2 R3))),
      snd (pass23 (afterPass13 R1 R2 R3))) \<and>
   fst (pass12 (initFrame R1 R2 R3)) =
     (if selected (args12 (initFrame R1 R2 R3)) = None then 1 else 0) \<and>
   fst (pass13 (afterPass12 R1 R2 R3)) =
     (if selected (args13 (afterPass12 R1 R2 R3)) = None then 1 else 0) \<and>
   fst (pass23 (afterPass13 R1 R2 R3)) =
     (if selected (args23 (afterPass13 R1 R2 R3)) = None then 1 else 0) \<and>
   (\<forall>i j. selected (args12 (initFrame R1 R2 R3)) = Some (i, j) \<longrightarrow>
      usedRectsCh1 (afterPass12 R1 R2 R3) ! i = 1 \<and>
      usedRectsCh2 (afterPass12 R1 R2 R3) ! j = 1 \<and>
      usedRectsCh2 (afterPass13 R1 R2 R3) ! j = 1 \<and>
      (\<forall>k. selected (args13 (afterPass12 R1 R2 R3)) \<noteq> Some (i, k)) \<and>
      (\<forall>k. selected (args23 (afterPass13 R1 R2 R3)) \<noteq> Some (j, k))) \<and>
   (\<forall>i k. selected (args13 (afterPass12 R1 R2 R3)) = Some (i, k) \<longrightarrow>
      usedRectsCh1 (afterPass13 R1 R2 R3) ! i = 1 \<and>
      usedRectsCh3 (afterPass13 R1 R2 R3) ! k = 1 \<and>
      (\<forall>j. selected (args23 (afterPass13 R1 R2 R3)) \<noteq> Some (j, k))) \<and>
   (\<forall>i k. selected (args13 (afterPass12 R1 R2 R3)) = Some (i, k) \<longrightarrow>
      usedRectsCh1 (afterPass12 R1 R2 R3) ! i = 0 \<and>
      usedRectsCh3 (afterPass12 R1 R2 R3) ! k = 0) \<and>
   (\<forall>j k. selected (args23 (afterPass13 R1 R2 R3)) = Some (j, k) \<longrightarrow>
      usedRectsCh2 (afterPass13 R1 R2 R3) ! j = 0 \<and>
      usedRectsCh3 (afterPass13 R1 R2 R3) ! k = 0)"
proof -
  let ?f0 = "initFrame R1 R2 R3" and ?f1 = "afterPass12 R1 R2 R3" and ?f2 = "afterPass13 R1 R2 R3"
  have p13: "usedRectsCh1 ?f1 ! i = 0 \<and> usedRectsCh3 ?f1 ! k = 0 \<and> i < length R1 \<and> k < length R3"
    if "selected (args13 ?f1) = Some (i, k)" for i k
    using selected_unused [OF that] by (simp add: args13_def afterPass_rects)
  have p23: "usedRectsCh2 ?f2 ! j = 0 \<and> usedRectsCh3 ?f2 ! k = 0"
    if "selected (args23 ?f2) = Some (j, k)" for j k
    using selected_unused [OF that] by (simp add: args23_def)
  have a: "usedRectsCh1 ?f1 ! i = 1 \<and> usedRectsCh2 ?f1 ! j = 1 \<and> usedRectsCh2 ?f2 ! j = 1"
    if "selected (args12 ?f0) = Some (i, j)" for i j
    using selected_unused [OF that] that
    by (simp add: afterPass12_used afterPass13_used args12_def initFrame_def)
  have b: "usedRectsCh1 ?f2 ! i = 1 \<and> usedRectsCh3 ?f2 ! k = 1"
    if "selected (args13 ?f1) = Some (i, k)" for i k
    using p13 [OF that] that by (simp add: afterPass13_used afterPass12_used split: option.split)
  have c: "selected (args13 ?f1) \<noteq> Some (i, k)" if "selected (args12 ?f0) = Some (i, j)" for i j k
    using a [OF that] p13 [of i k] by auto
  have d: "selected (args23 ?f2) \<noteq> Some (j, k)" if "selected (args12 ?f0) = Some (i, j)" for i j k
    using a [OF that] p23 [of j k] by auto
  have e: "selected (args23 ?f2) \<noteq> Some (j, k)" if "selected (args13 ?f1) = Some (i, k)" for i j k
    using b [OF that] p23 [of j k] by auto
  have main: "(\<forall>i j. selected (args12 ?f0) = Some (i, j) \<longrightarrow>
      usedRectsCh1 ?f1 ! i = 1 \<and> usedRectsCh2 ?f1 ! j = 1 \<and> usedRectsCh2 ?f2 ! j = 1 \<and>
      (\<forall>k. selected (args13 ?f1) \<noteq> Some (i, k)) \<and>
      (\<forall>k. selected (args23 ?f2) \<noteq> Some (j, k))) \<and>
   (\<forall>i k. selected (args13 ?f1) = Some (i, k) \<longrightarrow>
      usedRectsCh1 ?f2 ! i = 1 \<and> usedRectsCh3 ?f2 ! k = 1 \<and>
      (\<forall>j. selected (args23 ?f2) \<noteq> Some (j, k))) \<and>
   (\<forall>i k. selected (args13 ?f1) = Some (i, k) \<longrightarrow>
      usedRectsCh1 ?f1 ! i = 0 \<and> usedRectsCh3 ?f1 ! k = 0) \<and>
   (\<forall>j k. selected (args23 ?f2) = Some (j, k) \<longrightarrow>
      usedRectsCh2 ?f2 ! j = 0 \<and> usedRectsCh3 ?f2 ! k = 0)"
    using a b c d e p13 p23 by blast
  show ?thesis
    by (intro conjI matchCCBlobs_passes pass_fst main [THEN conjunct1]
        main [THEN conjunct2, THEN conjunct1]
        main [THEN conjunct2, THEN conjunct2, THEN conjunct1]
        main [THEN conjunct2, THEN conjunct2, THEN conjunct2])
qed


text \<open>
  An example: the first pass takes region 0 of channel 1 and region 0 of channel 2. With
  fresh markers the pass over channels 1 and 3 would take region 0 of channel 1 again; in
  the frame it takes region 1 instead. The third pass finds nothing, although the region
  of channel 2 overlaps the region of channel 3.
\<close>

theorem used_region_not_selected_again_witness:
  "selected (args12 (initFrame exR1 exR2 exR3)) = Some (0, 0) \<and>
   selected (args13 (initFrame exR1 exR2 exR3)) = Some (0, 0) \<and>
   selected (args13 (afterPass12 exR1 exR2 exR3)) = Some (1, 0) \<and>
   cand (args23 (initFrame exR1 exR2 exR3)) 0 0 \<and>
   selected (args23 (afterPass13 exR1 exR2 exR3)) = None \<and>
   usedRectsCh1 (afterPass12 exR1 exR2 exR3) ! 0 = 1 \<and>
   usedRectsCh2 (afterPass13 exR1 exR2 exR3) ! 0 = 1 \<and>
   fst (matchCCBlobs exR1 exR2 exR3) = (0, 0, 1)"
proof -
  have ev: "selected (args12 (initFrame exR1 exR2 exR3)) = Some (0, 0)"
    "selected (args13 (initFrame exR1 exR2 exR3)) = Some (0, 0)"
    "selected (args13 (afterPass12 exR1 exR2 exR3)) = Some (1, 0)"
    "cand (args23 (initFrame exR1 exR2 exR3)) 0 0"
    "selected (args23 (afterPass13 exR1 exR2 exR3)) = None"
    by code_simp+
  from used_region_not_selected_again [of exR1 exR2 exR3] ev show ?thesis by simp
qed


section \<open>Properties of the region expander\<close>

lemma dilateLoop_map:
  "count = length myRect \<Longrightarrow> i \<le> count \<Longrightarrow>
     dilateLoop factor i count myRect =
       take i myRect @ map (dilateBody factor) (drop i myRect)"
proof (induction factor i count myRect rule: dilateLoop.induct)
  case (1 factor i count myRect)
  show ?case
  proof (cases "i < count")
    case True
    let ?xs = "myRect[i := dilateBody factor (myRect ! i)]"
    have "dilateLoop factor i count myRect = dilateLoop factor (Suc i) count ?xs"
      using True by (subst dilateLoop.simps) simp
    also have "\<dots> = take (Suc i) ?xs @ map (dilateBody factor) (drop (Suc i) ?xs)"
      using True "1.prems" by (intro "1.IH") auto
    also have "take (Suc i) ?xs = take i myRect @ [dilateBody factor (myRect ! i)]"
      using True "1.prems" by (simp add: take_Suc_conv_app_nth)
    also have "drop (Suc i) ?xs = drop (Suc i) myRect" by simp
    finally show ?thesis
      using True "1.prems" by (simp add: Cons_nth_drop_Suc [symmetric])
  next
    case False
    with "1.prems" show ?thesis by (subst dilateLoop.simps) simp
  qed
qed

lemma dilateRects_map: "dilateRects factor myRect = map (dilateBody factor) myRect"
  by (simp add: dilateRects_def dilateLoop_map)

lemma dilateBody_expanded: "dilateBody factor r = expanded_spec factor r"
  by (simp add: dilateBody_def expanded_spec_def Let_def)

text \<open>
  Claim C6. \<^verbatim>\<open>dilateRects\<close> replaces every region of the vector, once, by the region
  with \<open>newWidth = width + width * factor / 100\<close> and
  \<open>newHeight = height + height * factor / 100\<close> under truncating division, and with the
  corner moved by \<open>x -= (newWidth - width) / 2\<close> and \<open>y -= (newHeight - height) / 2\<close>.
\<close>

theorem dilateRects_formula:
  "dilateRects factor myRect = map (expanded_spec factor) myRect"
  by (simp add: dilateRects_map dilateBody_expanded)

lemma c_div_nonneg: "0 \<le> a \<Longrightarrow> 0 < b \<Longrightarrow> c_div a b = a div b"
  by (simp add: c_div_def)

lemma div_100_zero: "0 \<le> (a::int) \<Longrightarrow> a div 100 = 0 \<longleftrightarrow> a < 100"
  by presburger

lemma dilateBody_props:
  assumes w: "0 \<le> rect_width r" and h: "0 \<le> rect_height r" and f: "0 \<le> factor"
  shows "\<bar>centre2_x (dilateBody factor r) - centre2_x r\<bar> \<le> 1"
    and "\<bar>centre2_y (dilateBody factor r) - centre2_y r\<bar> \<le> 1"
    and "\<bar>centre_x (dilateBody factor r) - centre_x r\<bar> \<le> 1"
    and "\<bar>centre_y (dilateBody factor r) - centre_y r\<bar> \<le> 1"
    and "area r \<le> area (dilateBody factor r)"
    and "area (dilateBody factor r) = area r \<longleftrightarrow>
          (rect_width r * factor < 100 \<or> rect_height r = 0) \<and>
          (rect_height r * factor < 100 \<or> rect_width r = 0)"
    and "factor = 0 \<Longrightarrow> dilateBody factor r = r"
proof -
  define dW where "dW = rect_width r * factor div 100"
  define dH where "dH = rect_height r * factor div 100"
  have wf: "0 \<le> rect_width r * factor" and hf: "0 \<le> rect_height r * factor"
    using w h f by simp_all
  have dW0: "0 \<le> dW" and dH0: "0 \<le> dH"
    using wf hf by (simp_all add: dW_def dH_def pos_imp_zdiv_nonneg_iff)
  have dWz: "dW = 0 \<longleftrightarrow> rect_width r * factor < 100"
    using wf unfolding dW_def by (rule div_100_zero)
  have dHz: "dH = 0 \<longleftrightarrow> rect_height r * factor < 100"
    using hf unfolding dH_def by (rule div_100_zero)
  have eq: "dilateBody factor r =
      \<lparr>rect_x = rect_x r - dW div 2, rect_y = rect_y r - dH div 2,
       rect_width = rect_width r + dW, rect_height = rect_height r + dH\<rparr>"
    using wf hf dW0 dH0 by (simp add: dilateBody_def Let_def c_div_nonneg dW_def dH_def)
  show "\<bar>centre2_x (dilateBody factor r) - centre2_x r\<bar> \<le> 1"
    unfolding eq centre2_x_def by simp
  show "\<bar>centre2_y (dilateBody factor r) - centre2_y r\<bar> \<le> 1"
    unfolding eq centre2_y_def by simp
  have half: "\<bar>(a + b) div 2 - b div 2 - a div 2\<bar> \<le> 1" for a b :: int
    by presburger
  show "\<bar>centre_x (dilateBody factor r) - centre_x r\<bar> \<le> 1"
    unfolding eq centre_x_def using w dW0 half [of "rect_width r" dW]
    by (simp add: c_div_nonneg)
  show "\<bar>centre_y (dilateBody factor r) - centre_y r\<bar> \<le> 1"
    unfolding eq centre_y_def using h dH0 half [of "rect_height r" dH]
    by (simp add: c_div_nonneg)
  have diff: "area (dilateBody factor r) - area r =
      rect_width r * dH + dW * rect_height r + dW * dH"
    unfolding eq area_def by (simp add: algebra_simps)
  have t: "0 \<le> rect_width r * dH" "0 \<le> dW * rect_height r" "0 \<le> dW * dH"
    using w h dW0 dH0 by simp_all
  show "area r \<le> area (dilateBody factor r)"
    using diff t by linarith
  have "area (dilateBody factor r) = area r \<longleftrightarrow>
      rect_width r * dH = 0 \<and> dW * rect_height r = 0 \<and> dW * dH = 0"
    using diff t by linarith
  also have "\<dots> \<longleftrightarrow> (dW = 0 \<or> rect_height r = 0) \<and> (dH = 0 \<or> rect_width r = 0)"
    using dWz dHz by auto
  finally show "area (dilateBody factor r) = area r \<longleftrightarrow>
          (rect_width r * factor < 100 \<or> rect_height r = 0) \<and>
          (rect_height r * factor < 100 \<or> rect_width r = 0)"
    by (simp add: dWz dHz)
  show "dilateBody factor r = r" if "factor = 0"
    using that by (simp add: dilateBody_def c_div_def Let_def)
qed


text \<open>
  Claim C5 states that the area stays the same only for the factor 0. That fails: the
  percentage is truncated, so a region of 1 by 1 pixel is left as it is by the factor 35.
\<close>

theorem dilate_area_equal_counterexample:
  "dilateRects 35 [mkRect 0 0 1 1] = [mkRect 0 0 1 1] \<and>
   area (dilateRects 35 [mkRect 0 0 1 1] ! 0) = area (mkRect 0 0 1 1) \<and> (35::int) \<noteq> 0"
  by (simp add: dilateRects_map dilateBody_def c_div_def mkRect_def area_def Let_def)

text \<open>
  Claim C5, amended. For a region with non-negative width and height and a factor that
  is not negative, the doubled centre \<open>(2 x + width, 2 y + height)\<close> of the dilated
  region differs from the original one by at most 1 in each axis (so the centre moves by
  at most half a pixel), the centre in whole pixels \<open>(x + width / 2, y + height / 2)\<close>
  differs by at most 1 in each axis, and the area does not shrink. The area stays the same exactly
  when, in each direction, the truncated growth is zero (\<open>extent * factor < 100\<close>) or
  the other extent is zero; the factor 0 leaves the region as it is.
\<close>

theorem dilateRects_centre_and_area:
  assumes "i < length myRect"
    and "0 \<le> rect_width (myRect ! i)" and "0 \<le> rect_height (myRect ! i)"
    and "0 \<le> factor"
  shows "\<bar>centre2_x (dilateRects factor myRect ! i) - centre2_x (myRect ! i)\<bar> \<le> 1 \<and>
         \<bar>centre2_y (dilateRects factor myRect ! i) - centre2_y (myRect ! i)\<bar> \<le> 1 \<and>
         \<bar>centre_x (dilateRects factor myRect ! i) - centre_x (myRect ! i)\<bar> \<le> 1 \<and>
         \<bar>centre_y (dilateRects factor myRect ! i) - centre_y (myRect ! i)\<bar> \<le> 1 \<and>
         area (myRect ! i) \<le> area (dilateRects factor myRect ! i) \<and>
         (area (dilateRects factor myRect ! i) = area (myRect ! i) \<longleftrightarrow>
            (rect_width (myRect ! i) * factor < 100 \<or> rect_height (myRect ! i) = 0) \<and>
            (rect_height (myRect ! i) * factor < 100 \<or> rect_width (myRect ! i) = 0)) \<and>
         (factor = 0 \<longrightarrow> dilateRects factor myRect ! i = myRect ! i)"
proof -
  have eq: "dilateRects factor myRect ! i = dilateBody factor (myRect ! i)"
    using assms(1) by (simp add: dilateRects_map)
  show ?thesis
    unfolding eq using dilateBody_props [OF assms(2-4)] by blast
qed

text \<open>A region of 40 by 20 pixels under the factor 35 of the program.\<close>

theorem dilateRects_centre_and_area_witness:
  "(0::nat) < length [mkRect 10 20 40 20] \<and>
   0 \<le> rect_width ([mkRect 10 20 40 20] ! 0) \<and> 0 \<le> rect_height ([mkRect 10 20 40 20] ! 0) \<and>
   (0::int) \<le> 35 \<and>
   dilateRects 35 [mkRect 10 20 40 20] ! 0 = mkRect 3 17 54 27 \<and>
   \<bar>centre2_x (dilateRects 35 [mkRect 10 20 40 20] ! 0) - centre2_x ([mkRect 10 20 40 20] ! 0)\<bar> \<le> 1 \<and>
   \<bar>centre2_y (dilateRects 35 [mkRect 10 20 40 20] ! 0) - centre2_y ([mkRect 10 20 40 20] ! 0)\<bar> \<le> 1 \<and>
   area ([mkRect 10 20 40 20] ! 0) \<le> area (dilateRects 35 [mkRect 10 20 40 20] ! 0)"
proof -
  have ev: "dilateRects 35 [mkRect 10 20 40 20] ! 0 = mkRect 3 17 54 27"
    by (simp add: dilateRects_map dilateBody_def c_div_def mkRect_def Let_def)
  have h: "(0::nat) < length [mkRect 10 20 40 20]"
    "0 \<le> rect_width ([mkRect 10 20 40 20] ! 0)" "0 \<le> rect_height ([mkRect 10 20 40 20] ! 0)"
    "(0::int) \<le> 35"
    by (simp_all add: mkRect_def)
  from dilateRects_centre_and_area [OF h] h ev show ?thesis
    by blast
qed


section \<open>Properties of the region extractor\<close>

lemma thresholdLoop_filter:
  "thresholdLoop b i cs fr = fr @ filter (\<lambda>r. MINAREABLOB < area r) (map b (drop i cs))"
proof (induction b i cs fr rule: thresholdLoop.induct)
  case (1 b i cs fr)
  show ?case
  proof (cases "i < length cs")
    case True
    then have d: "drop i cs = cs ! i # drop (Suc i) cs"
      by (simp add: Cons_nth_drop_Suc)
    show ?thesis
      using True "1.IH" [OF True refl]
      by (subst thresholdLoop.simps) (simp add: d Let_def)
  next
    case False
    then show ?thesis by (subst thresholdLoop.simps) simp
  qed
qed

lemma getThresholdRects_filter:
  "getThresholdRects fc b m fr = fr @ filter (\<lambda>r. MINAREABLOB < area r) (map b (fc m))"
  by (simp add: getThresholdRects_def thresholdLoop_filter)

text \<open>
  Claim C8. \<^verbatim>\<open>getThresholdRects\<close> appends to the vector the bounding boxes of the
  contours, in their order, whose area is greater than 64, and nothing else. Called with
  an empty vector, as in \<^verbatim>\<open>detectCCBlobs\<close>, it returns only regions of area greater
  than 64, and no bounding box of area 64 or less is in the result. A mask with a single
  contour whose bounding box is 5 by 5 gives the empty vector.
\<close>

theorem getThresholdRects_drops_small:
  "getThresholdRects fc b m fr = fr @ filter (\<lambda>r. 64 < area r) (map b (fc m)) \<and>
   (\<forall>r \<in> set (getThresholdRects fc b m []). 64 < area r) \<and>
   (\<forall>c \<in> set (fc m). area (b c) \<le> 64 \<longrightarrow> b c \<notin> set (getThresholdRects fc b m [])) \<and>
   (\<forall>c. fc m = [c] \<and> rect_width (b c) = 5 \<and> rect_height (b c) = 5 \<longrightarrow>
      getThresholdRects fc b m [] = [])"
  by (auto simp: getThresholdRects_filter MINAREABLOB_def area_def)

text \<open>
  Bounding boxes of areas 25, 72 and 64: only the second is kept. A single box of 5 by 5
  gives nothing.
\<close>

theorem getThresholdRects_drops_small_witness:
  "getThresholdRects (\<lambda>m. m) (\<lambda>c. c) [mkRect 3 4 5 5, mkRect 0 0 9 8, mkRect 7 7 8 8] [] =
     [mkRect 0 0 9 8] \<and>
   getThresholdRects (\<lambda>m. m) (\<lambda>c. c) [mkRect 3 4 5 5] [] = []"
proof -
  have ev: "filter (\<lambda>r. 64 < area r) [mkRect 3 4 5 5, mkRect 0 0 9 8, mkRect 7 7 8 8] = [mkRect 0 0 9 8]"
    "filter (\<lambda>r. 64 < area r) [mkRect 3 4 5 5] = []"
    by (simp_all add: mkRect_def area_def)
  note t = getThresholdRects_drops_small [of "\<lambda>m. m" "\<lambda>c. c" _ "[]", THEN conjunct1]
  show ?thesis
    by (simp only: t list.map_ident append_Nil ev simp_thms)
qed


section \<open>Properties of the calibration sampler\<close>

lemma list3: "length xs = 3 \<longleftrightarrow> (\<exists>a b c. xs = [a, b, c])"
  by (auto simp: length_Suc_conv eval_nat_numeral)

lemma resetLoop_3:
  assumes "length MINHSV = 3" "length MAXHSV = 3"
  shows "resetLoop 0 (MINHSV, MAXHSV) = ([255, 255, 255], [0, 0, 0])"
proof -
  obtain a b c where m: "MINHSV = [a, b, c]" using assms(1) by (auto simp: list3)
  obtain d e f where x: "MAXHSV = [d, e, f]" using assms(2) by (auto simp: list3)
  show ?thesis
    unfolding m x by (simp add: resetLoop.simps eval_nat_numeral)
qed

lemma loopA_explicit:
  "loopA (Vec3b h s v) 0 ([a, b, c], [d, e, f]) =
     ([min (uint h) a, min (uint s) b, min (uint v) c],
      [max (uint h) d, max (uint s) e, max (uint v) f])"
  by (simp add: loopA.simps eval_nat_numeral Let_def min_def max_def)

lemma less3: "a < (3::nat) \<longleftrightarrow> a = 0 \<or> a = 1 \<or> a = 2"
  by auto

lemma loopA_nth:
  assumes "length MINHSV = 3" "length MAXHSV = 3"
  shows "length (fst (loopA p 0 (MINHSV, MAXHSV))) = 3 \<and>
         length (snd (loopA p 0 (MINHSV, MAXHSV))) = 3 \<and>
         (\<forall>a<3. fst (loopA p 0 (MINHSV, MAXHSV)) ! a = min (uint (val p a)) (MINHSV ! a) \<and>
                snd (loopA p 0 (MINHSV, MAXHSV)) ! a = max (uint (val p a)) (MAXHSV ! a))"
proof -
  obtain a b c where m: "MINHSV = [a, b, c]" using assms(1) by (auto simp: list3)
  obtain d e f where x: "MAXHSV = [d, e, f]" using assms(2) by (auto simp: list3)
  obtain h s v where p: "p = Vec3b h s v" by (cases p)
  show ?thesis
    unfolding m x p loopA_explicit by (auto simp: less3)
qed

lemma hsv_inv_empty: "hsv_inv m {} ([255, 255, 255], [0, 0, 0])"
  by (auto simp: hsv_inv_def less3)

lemma hsv_inv_step:
  assumes fin: "finite S" and inv: "hsv_inv m S st"
  shows "hsv_inv m (insert (i, j) S) (loopA (pixel m j i) 0 st)"
proof -
  obtain MINHSV MAXHSV where st: "st = (MINHSV, MAXHSV)" by (cases st)
  from inv have len: "length MINHSV = 3" "length MAXHSV = 3"
    by (simp_all add: hsv_inv_def st)
  note A = loopA_nth [OF len, of "pixel m j i"]
  have "fst (loopA (pixel m j i) 0 st) ! a = Min (insert 255 (component m a ` insert (i, j) S)) \<and>
        snd (loopA (pixel m j i) 0 st) ! a = Max (insert 0 (component m a ` insert (i, j) S))"
    if a: "a < 3" for a
  proof -
    have c: "component m a (i, j) = uint (val (pixel m j i) a)" by (simp add: component_def)
    have f: "finite (insert 255 (component m a ` S))" "finite (insert 0 (component m a ` S))"
      using fin by simp_all
    have "Min (insert 255 (component m a ` insert (i, j) S)) =
          Min (insert (component m a (i, j)) (insert 255 (component m a ` S)))"
      by (simp add: insert_commute)
    also have "\<dots> = min (component m a (i, j)) (Min (insert 255 (component m a ` S)))"
      using f(1) by (rule Min_insert) simp
    finally have mn: "Min (insert 255 (component m a ` insert (i, j) S)) =
        min (uint (val (pixel m j i) a)) (MINHSV ! a)"
      using inv a by (simp add: hsv_inv_def st c)
    have "Max (insert 0 (component m a ` insert (i, j) S)) =
          Max (insert (component m a (i, j)) (insert 0 (component m a ` S)))"
      by (simp add: insert_commute)
    also have "\<dots> = max (component m a (i, j)) (Max (insert 0 (component m a ` S)))"
      using f(2) by (rule Max_insert) simp
    finally have mx: "Max (insert 0 (component m a ` insert (i, j) S)) =
        max (uint (val (pixel m j i) a)) (MAXHSV ! a)"
      using inv a by (simp add: hsv_inv_def st c)
    from A a mn mx show ?thesis by (simp add: st)
  qed
  with A show ?thesis by (simp add: hsv_inv_def st)
qed

lemma mat_at_inb: "mat_at m j i = (if inb m (i, j) then Some (pixel m j i) else None)"
  by (simp add: mat_at_def inb_def)

lemma loopRow_inv:
  "finite S \<Longrightarrow> hsv_inv m S st \<Longrightarrow> \<forall>j'. j \<le> j' \<and> j' < BOX ! 3 \<longrightarrow> inb m (i, j') \<Longrightarrow>
     \<exists>st'. loopRow m BOX i j st = Some st' \<and> hsv_inv m (S \<union> {i} \<times> {j..<BOX ! 3}) st'"
proof (induction m BOX i j st arbitrary: S rule: loopRow.induct)
  case (1 m BOX i j st)
  show ?case
  proof (cases "j < BOX ! 3")
    case True
    with "1.prems" have at: "mat_at m j i = Some (pixel m j i)"
      by (simp add: mat_at_inb)
    have "\<exists>st'. loopRow m BOX i (j + 1) (loopA (pixel m j i) 0 st) = Some st' \<and>
            hsv_inv m (insert (i, j) S \<union> {i} \<times> {j + 1..<BOX ! 3}) st'"
      using "1.prems" True at
      by (intro "1.IH" [OF True at]) (auto intro: hsv_inv_step)
    moreover have "insert (i, j) S \<union> {i} \<times> {j + 1..<BOX ! 3} = S \<union> {i} \<times> {j..<BOX ! 3}"
      using True by auto
    ultimately show ?thesis
      using True at by (subst loopRow.simps) simp
  next
    case False
    then have "{j..<BOX ! 3} = {}" by simp
    with False "1.prems" show ?thesis by (subst loopRow.simps) simp
  qed
qed

lemma loopCol_inv:
  "finite S \<Longrightarrow> hsv_inv m S st \<Longrightarrow>
     \<forall>i' j'. i \<le> i' \<and> i' < BOX ! 2 \<and> BOX ! 1 \<le> j' \<and> j' < BOX ! 3 \<longrightarrow> inb m (i', j') \<Longrightarrow>
     \<exists>st'. loopCol m BOX i st = Some st' \<and>
           hsv_inv m (S \<union> {i..<BOX ! 2} \<times> {BOX ! 1..<BOX ! 3}) st'"
proof (induction m BOX i st arbitrary: S rule: loopCol.induct)
  case (1 m BOX i st)
  show ?case
  proof (cases "i < BOX ! 2")
    case True
    let ?S' = "S \<union> {i} \<times> {BOX ! 1..<BOX ! 3}"
    obtain st' where row: "loopRow m BOX i (BOX ! 1) st = Some st'" and inv': "hsv_inv m ?S' st'"
      using loopRow_inv [OF "1.prems"(1,2), of "BOX ! 1" BOX i] "1.prems"(3) True by auto
    have "\<exists>st''. loopCol m BOX (i + 1) st' = Some st'' \<and>
            hsv_inv m (?S' \<union> {i + 1..<BOX ! 2} \<times> {BOX ! 1..<BOX ! 3}) st''"
      using "1.prems" inv' by (intro "1.IH" [OF True row]) auto
    moreover have "?S' \<union> {i + 1..<BOX ! 2} \<times> {BOX ! 1..<BOX ! 3} =
        S \<union> {i..<BOX ! 2} \<times> {BOX ! 1..<BOX ! 3}"
      using True by auto
    ultimately show ?thesis
      using True row by (subst loopCol.simps) simp
  next
    case False
    then have "{i..<BOX ! 2} = {}" by simp
    with False "1.prems" show ?thesis by (subst loopCol.simps) simp
  qed
qed

lemma loopRow_None:
  "j \<le> j0 \<Longrightarrow> j0 < BOX ! 3 \<Longrightarrow> \<not> inb m (i, j0) \<Longrightarrow> loopRow m BOX i j st = None"
proof (induction m BOX i j st rule: loopRow.induct)
  case (1 m BOX i j st)
  from "1.prems" have lt: "j < BOX ! 3" by simp
  show ?case
  proof (cases "mat_at m j i")
    case None
    with lt show ?thesis by (subst loopRow.simps) simp
  next
    case (Some p)
    with "1.prems" have "j \<noteq> j0" by (auto simp: mat_at_inb split: if_splits)
    with "1.prems" have "loopRow m BOX i (j + 1) (loopA p 0 st) = None"
      by (intro "1.IH" [OF lt Some]) auto
    with lt Some show ?thesis by (subst loopRow.simps) simp
  qed
qed

lemma loopCol_None:
  "i \<le> i0 \<Longrightarrow> i0 < BOX ! 2 \<Longrightarrow> BOX ! 1 \<le> j0 \<Longrightarrow> j0 < BOX ! 3 \<Longrightarrow> \<not> inb m (i0, j0) \<Longrightarrow>
     loopCol m BOX i st = None"
proof (induction m BOX i st rule: loopCol.induct)
  case (1 m BOX i st)
  from "1.prems" have lt: "i < BOX ! 2" by simp
  show ?case
  proof (cases "loopRow m BOX i (BOX ! 1) st")
    case None
    with lt show ?thesis by (subst loopCol.simps) simp
  next
    case (Some st')
    with "1.prems" loopRow_None [of "BOX ! 1" j0 BOX m i st] have "i \<noteq> i0" by auto
    with "1.prems" have "loopCol m BOX (i + 1) st' = None"
      by (intro "1.IH" [OF lt Some]) auto
    with lt Some show ?thesis by (subst loopCol.simps) simp
  qed
qed

lemma getBoundingBoxHSV_inv:
  assumes "length MINHSV = 3" "length MAXHSV = 3"
    and "\<forall>p \<in> scanned (BOX ! 0) (BOX ! 1) (BOX ! 2) (BOX ! 3). inb m p"
  shows "\<exists>st'. getBoundingBoxHSV m BOX MINHSV MAXHSV = Some st' \<and>
           hsv_inv m (scanned (BOX ! 0) (BOX ! 1) (BOX ! 2) (BOX ! 3)) st'"
proof -
  have "\<forall>i' j'. BOX ! 0 \<le> i' \<and> i' < BOX ! 2 \<and> BOX ! 1 \<le> j' \<and> j' < BOX ! 3 \<longrightarrow> inb m (i', j')"
    using assms(3) by (auto simp: scanned_def)
  from loopCol_inv [OF _ hsv_inv_empty this] show ?thesis
    by (simp add: getBoundingBoxHSV_def resetLoop_3 [OF assms(1,2)] scanned_def)
qed

lemma getBoundingBoxHSV_None:
  assumes "length MINHSV = 3" "length MAXHSV = 3"
    and "p \<in> scanned (BOX ! 0) (BOX ! 1) (BOX ! 2) (BOX ! 3)" "\<not> inb m p"
  shows "getBoundingBoxHSV m BOX MINHSV MAXHSV = None"
proof -
  obtain i0 j0 where p: "p = (i0, j0)" by (cases p)
  from assms(3,4) show ?thesis
    unfolding getBoundingBoxHSV_def p scanned_def
    by (intro loopCol_None [of _ i0 _ j0]) auto
qed

lemma uchar_le_255: "uint (w :: uchar) \<le> 255"
  using uint_lt2p [of w] by simp

lemma list3_nth: "length xs = 3 \<Longrightarrow> xs = [xs ! 0, xs ! 1, xs ! 2]"
  by (auto simp: list3)

lemma hsv_inv_nonempty:
  assumes inv: "hsv_inv m S st" and fin: "finite S" and ne: "S \<noteq> {}" and a: "a < 3"
  shows "fst st ! a = Min (component m a ` S)" and "snd st ! a = Max (component m a ` S)"
proof -
  have f: "finite (component m a ` S)" and n: "component m a ` S \<noteq> {}" using fin ne by simp_all
  have b: "0 \<le> v \<and> v \<le> 255" if "v \<in> component m a ` S" for v
    using that uchar_le_255 by (auto simp: component_def)
  have "Min (component m a ` S) \<in> component m a ` S" "Max (component m a ` S) \<in> component m a ` S"
    using f n by (rule Min_in, rule Max_in)
  then have "Min (component m a ` S) \<le> 255" "0 \<le> Max (component m a ` S)"
    using b by blast+
  then have "Min (insert 255 (component m a ` S)) = Min (component m a ` S)"
    "Max (insert 0 (component m a ` S)) = Max (component m a ` S)"
    unfolding Min_insert [OF f n] Max_insert [OF f n] by simp_all
  with inv a show "fst st ! a = Min (component m a ` S)" and "snd st ! a = Max (component m a ` S)"
    by (simp_all add: hsv_inv_def)
qed

lemma hsv_inv_const:
  assumes inv: "hsv_inv m S st" and len: "a < 3" and c: "component m a ` S = {v}"
  shows "fst st ! a = min 255 v \<and> snd st ! a = max 0 v"
  using inv len by (simp add: hsv_inv_def c)

lemma scanned_finite: "finite (scanned x1 y1 x2 y2)"
  by (simp add: scanned_def)

lemma scanned_nonempty: "x1 < x2 \<Longrightarrow> y1 < y2 \<Longrightarrow> scanned x1 y1 x2 y2 \<noteq> {}"
  by (auto simp: scanned_def)

lemma scanned_inb:
  "0 \<le> x1 \<Longrightarrow> x2 \<le> cols m \<Longrightarrow> 0 \<le> y1 \<Longrightarrow> y2 \<le> rows m \<Longrightarrow> p \<in> scanned x1 y1 x2 y2 \<Longrightarrow> inb m p"
  by (auto simp: scanned_def inb_def)

subsection \<open>The sampled range\<close>

text \<open>
  Claim C7. For a box with \<open>x1 < x2\<close> and \<open>y1 < y2\<close> inside the frame and arrays of
  length 3, \<^verbatim>\<open>getBoundingBoxHSV\<close> returns, and each component of MIN and MAX is the
  minimum and the maximum of that component over the scanned pixels (columns \<open>x1\<close> to
  \<open>x2 - 1\<close>, rows \<open>y1\<close> to \<open>y2 - 1\<close>), whatever the arrays held before. If all scanned
  pixels have one colour, MIN and MAX are that colour; if the scanned pixels have exactly
  the values \<open>(3, 3, 3)\<close> and \<open>(7, 1, 9)\<close>, then MIN is \<open>(3, 1, 3)\<close> and MAX is
  \<open>(7, 3, 9)\<close>.
\<close>

theorem getBoundingBoxHSV_min_max:
  assumes box: "x1 < x2" "y1 < y2" and frame: "0 \<le> x1" "x2 \<le> cols m" "0 \<le> y1" "y2 \<le> rows m"
    and len: "length MINHSV = 3" "length MAXHSV = 3"
  shows "\<exists>MIN' MAX'.
      getBoundingBoxHSV m [x1, y1, x2, y2] MINHSV MAXHSV = Some (MIN', MAX') \<and>
      length MIN' = 3 \<and> length MAX' = 3 \<and>
      (\<forall>a<3. MIN' ! a = Min (component m a ` scanned x1 y1 x2 y2) \<and>
             MAX' ! a = Max (component m a ` scanned x1 y1 x2 y2)) \<and>
      (\<forall>h s v. (\<forall>i j. (i, j) \<in> scanned x1 y1 x2 y2 \<longrightarrow> pixel m j i = Vec3b h s v) \<longrightarrow>
         MIN' = [uint h, uint s, uint v] \<and> MAX' = [uint h, uint s, uint v]) \<and>
      ((\<lambda>(i, j). pixel m j i) ` scanned x1 y1 x2 y2 = {Vec3b 3 3 3, Vec3b 7 1 9} \<longrightarrow>
         MIN' = [3, 1, 3] \<and> MAX' = [7, 3, 9])"
proof -
  let ?S = "scanned x1 y1 x2 y2"
  have "\<forall>p \<in> scanned ([x1, y1, x2, y2] ! 0) ([x1, y1, x2, y2] ! 1) ([x1, y1, x2, y2] ! 2)
           ([x1, y1, x2, y2] ! 3). inb m p"
    using scanned_inb [OF frame] by simp
  from getBoundingBoxHSV_inv [OF len this]
  obtain MIN' MAX' where res: "getBoundingBoxHSV m [x1, y1, x2, y2] MINHSV MAXHSV = Some (MIN', MAX')"
    and inv: "hsv_inv m ?S (MIN', MAX')"
    by auto
  have l: "length MIN' = 3" "length MAX' = 3" using inv by (simp_all add: hsv_inv_def)
  note ne = scanned_nonempty [OF box]
  have mm: "MIN' ! a = Min (component m a ` ?S) \<and> MAX' ! a = Max (component m a ` ?S)" if "a < 3" for a
    using hsv_inv_nonempty [OF inv scanned_finite ne that] by simp
  have uni: "MIN' = [uint h, uint s, uint v] \<and> MAX' = [uint h, uint s, uint v]"
    if u: "\<forall>i j. (i, j) \<in> ?S \<longrightarrow> pixel m j i = Vec3b h s v" for h s v
  proof -
    have "component m a p = uint (val (Vec3b h s v) a)" if "p \<in> ?S" for a p
      using u that by (cases p) (simp add: component_def del: val.simps)
    then have "component m a ` ?S = {uint (val (Vec3b h s v) a)}" for a
      using ne by (auto simp del: val.simps)
    then have "MIN' ! a = uint (val (Vec3b h s v) a) \<and> MAX' ! a = uint (val (Vec3b h s v) a)"
      if "a < 3" for a
      using mm [OF that] by simp
    then have "MIN' ! 0 = uint h" "MIN' ! 1 = uint s" "MIN' ! 2 = uint v"
      "MAX' ! 0 = uint h" "MAX' ! 1 = uint s" "MAX' ! 2 = uint v"
      by (simp_all add: less3)
    then show ?thesis
      using list3_nth [OF l(1)] list3_nth [OF l(2)] by simp
  qed
  have two: "MIN' = [3, 1, 3] \<and> MAX' = [7, 3, 9]"
    if t: "(\<lambda>(i, j). pixel m j i) ` ?S = {Vec3b 3 3 3, Vec3b 7 1 9}"
  proof -
    have "component m a ` ?S = (\<lambda>p. uint (val p a)) ` ((\<lambda>(i, j). pixel m j i) ` ?S)" for a
      by (simp add: image_image component_def split_def)
    then have c: "component m a ` ?S = {uint (val (Vec3b 3 3 3) a), uint (val (Vec3b 7 1 9) a)}" for a
      by (simp add: t)
    have "MIN' ! 0 = 3" "MIN' ! 1 = 1" "MIN' ! 2 = 3" "MAX' ! 0 = 7" "MAX' ! 1 = 3" "MAX' ! 2 = 9"
      using mm [of 0] mm [of 1] mm [of 2] by (simp_all add: c)
    then show ?thesis
      using list3_nth [OF l(1)] list3_nth [OF l(2)] by simp
  qed
  from res l mm uni two show ?thesis by blast
qed

text \<open>The two examples of the claim, run through the function.\<close>

theorem getBoundingBoxHSV_min_max_witness:
  "(0::int) < 2 \<and> (0::int) < 1 \<and> (0::int) \<le> 0 \<and> 2 \<le> cols exImg2 \<and> (0::int) \<le> 0 \<and> 1 \<le> rows exImg2 \<and>
   length [10, 20, 30 :: int] = 3 \<and> length [40, 50, 60 :: int] = 3 \<and>
   getBoundingBoxHSV exImg2 [0, 0, 2, 1] [10, 20, 30] [40, 50, 60] = Some ([3, 1, 3], [7, 3, 9]) \<and>
   getBoundingBoxHSV exImg [10, 10, 13, 12] [10, 20, 30] [40, 50, 60] =
     Some ([90, 120, 200], [90, 120, 200])"
proof -
  have h: "(0::int) < 2" "(0::int) < 1" "(0::int) \<le> 0" "2 \<le> cols exImg2" "(0::int) \<le> 0"
    "1 \<le> rows exImg2" "length [10, 20, 30 :: int] = 3" "length [40, 50, 60 :: int] = 3"
    by (simp_all add: exImg2_def)
  have ev: "getBoundingBoxHSV exImg2 [0, 0, 2, 1] [10, 20, 30] [40, 50, 60] = Some ([3, 1, 3], [7, 3, 9])"
    "getBoundingBoxHSV exImg [10, 10, 13, 12] [10, 20, 30] [40, 50, 60] =
       Some ([90, 120, 200], [90, 120, 200])"
    by code_simp+
  from getBoundingBoxHSV_min_max [OF h] h ev show ?thesis by blast
qed

subsection \<open>Degenerate and out-of-bounds boxes\<close>

text \<open>
  Claim C4 states that a degenerate or out-of-bounds box leaves the thresholds as they
  were. That fails: the function resets the arrays before it scans, so the empty box
  \<open>(5, 5, 5, 5)\<close> turns MIN \<open>(10, 20, 30)\<close> and MAX \<open>(40, 50, 60)\<close> into
  \<open>(255, 255, 255)\<close> and \<open>(0, 0, 0)\<close>; and the box \<open>(-1, 0, 1, 1)\<close> makes the
  function read outside the image.
\<close>

theorem calibration_zero_effect_counterexample:
  "getBoundingBoxHSV exImg [5, 5, 5, 5] [10, 20, 30] [40, 50, 60] = Some ([255, 255, 255], [0, 0, 0]) \<and>
   getBoundingBoxHSV exImg [5, 5, 5, 5] [10, 20, 30] [40, 50, 60] \<noteq> Some ([10, 20, 30], [40, 50, 60]) \<and>
   getBoundingBoxHSV exImg [- 1, 0, 1, 1] [10, 20, 30] [40, 50, 60] \<noteq> Some ([10, 20, 30], [40, 50, 60])"
  by code_simp

lemma hsv_inv_empty_eq:
  assumes "hsv_inv m {} st"
  shows "st = ([255, 255, 255], [0, 0, 0])"
proof -
  from assms have l: "length (fst st) = 3" "length (snd st) = 3"
    and v: "fst st ! 0 = 255" "fst st ! 1 = 255" "fst st ! 2 = 255"
      "snd st ! 0 = 0" "snd st ! 1 = 0" "snd st ! 2 = 0"
    by (simp_all add: hsv_inv_def)
  from list3_nth [OF l(1)] list3_nth [OF l(2)] v show ?thesis
    by (cases st) simp
qed

text \<open>
  Claim C4, amended. For arrays of length 3: a degenerate box (\<open>x2 \<le> x1\<close> or
  \<open>y2 \<le> y1\<close>), wherever it lies, makes \<^verbatim>\<open>getBoundingBoxHSV\<close> set MIN to
  \<open>(255, 255, 255)\<close> and MAX to \<open>(0, 0, 0)\<close>, whatever they held before; no pixel is
  read. A box that is not degenerate and not inside the frame makes the function read
  outside the image, and the call has no defined result.
\<close>

theorem degenerate_box_resets_thresholds:
  assumes len: "length MINHSV = 3" "length MAXHSV = 3"
  shows "(x2 \<le> x1 \<or> y2 \<le> y1 \<longrightarrow>
            getBoundingBoxHSV m [x1, y1, x2, y2] MINHSV MAXHSV =
              Some ([255, 255, 255], [0, 0, 0])) \<and>
         (x1 < x2 \<and> y1 < y2 \<and> \<not> (0 \<le> x1 \<and> x2 \<le> cols m \<and> 0 \<le> y1 \<and> y2 \<le> rows m) \<longrightarrow>
            getBoundingBoxHSV m [x1, y1, x2, y2] MINHSV MAXHSV = None)"
proof (intro conjI impI)
  let ?B = "[x1, y1, x2, y2]"
  have sc: "scanned (?B ! 0) (?B ! 1) (?B ! 2) (?B ! 3) = scanned x1 y1 x2 y2" by simp
  {
    assume "x2 \<le> x1 \<or> y2 \<le> y1"
    then have e: "scanned x1 y1 x2 y2 = {}" by (auto simp: scanned_def)
    from getBoundingBoxHSV_inv [OF len, of ?B m]
    obtain st' where "getBoundingBoxHSV m ?B MINHSV MAXHSV = Some st'" "hsv_inv m {} st'"
      unfolding sc e by auto
    then show "getBoundingBoxHSV m ?B MINHSV MAXHSV = Some ([255, 255, 255], [0, 0, 0])"
      using hsv_inv_empty_eq by blast
  }
  {
    assume a: "x1 < x2 \<and> y1 < y2 \<and> \<not> (0 \<le> x1 \<and> x2 \<le> cols m \<and> 0 \<le> y1 \<and> y2 \<le> rows m)"
    then have "\<exists>p \<in> scanned x1 y1 x2 y2. \<not> inb m p"
    proof -
      from a consider "x1 < 0" | "cols m < x2" | "y1 < 0" | "rows m < y2" by linarith
      then show ?thesis
      proof cases
        case 1
        with a have "(x1, y1) \<in> scanned x1 y1 x2 y2 \<and> \<not> inb m (x1, y1)"
          by (simp add: scanned_def inb_def)
        then show ?thesis by blast
      next
        case 2
        with a have "(x2 - 1, y1) \<in> scanned x1 y1 x2 y2 \<and> \<not> inb m (x2 - 1, y1)"
          by (simp add: scanned_def inb_def)
        then show ?thesis by blast
      next
        case 3
        with a have "(x1, y1) \<in> scanned x1 y1 x2 y2 \<and> \<not> inb m (x1, y1)"
          by (simp add: scanned_def inb_def)
        then show ?thesis by blast
      next
        case 4
        with a have "(x1, y2 - 1) \<in> scanned x1 y1 x2 y2 \<and> \<not> inb m (x1, y2 - 1)"
          by (simp add: scanned_def inb_def)
        then show ?thesis by blast
      qed
    qed
    then obtain p where "p \<in> scanned (?B ! 0) (?B ! 1) (?B ! 2) (?B ! 3)" "\<not> inb m p"
      unfolding sc by blast
    then show "getBoundingBoxHSV m ?B MINHSV MAXHSV = None"
      by (rule getBoundingBoxHSV_None [OF len])
  }
qed

text \<open>Two degenerate boxes, one of them outside the frame, and a box that leaves the frame.\<close>

theorem degenerate_box_resets_thresholds_witness:
  "length [10, 20, 30 :: int] = 3 \<and> length [40, 50, 60 :: int] = 3 \<and>
   getBoundingBoxHSV exImg [5, 5, 5, 5] [10, 20, 30] [40, 50, 60] = Some ([255, 255, 255], [0, 0, 0]) \<and>
   getBoundingBoxHSV exImg [700, 9, 600, 3] [10, 20, 30] [40, 50, 60] = Some ([255, 255, 255], [0, 0, 0]) \<and>
   getBoundingBoxHSV exImg [630, 470, 650, 475] [10, 20, 30] [40, 50, 60] = None"
proof -
  have h: "length [10, 20, 30 :: int] = 3" "length [40, 50, 60 :: int] = 3" by simp_all
  from degenerate_box_resets_thresholds [OF h, where m = exImg and ?x1.0 = 5 and ?y1.0 = 5 and ?x2.0 = 5 and ?y2.0 = 5]
       degenerate_box_resets_thresholds [OF h, where m = exImg and ?x1.0 = 700 and ?y1.0 = 9 and ?x2.0 = 600 and ?y2.0 = 3]
       degenerate_box_resets_thresholds [OF h, where m = exImg and ?x1.0 = 630 and ?y1.0 = 470 and ?x2.0 = 650 and ?y2.0 = 475]
  show ?thesis by (simp add: exImg_def)
qed


section \<open>Properties of the configuration file\<close>

lemma isdigit_digit_char: "d < 10 \<Longrightarrow> isdigit (digit_char d)"
  by (simp add: isdigit_def digit_char_def)

lemma digit_val_digit_char: "d < 10 \<Longrightarrow> digit_val (digit_char d) = d"
  by (simp add: digit_val_def digit_char_def)

lemma isdigit_not_other: "isdigit c \<Longrightarrow> \<not> isspace c \<and> c \<noteq> CHR ''-'' \<and> c \<noteq> CHR ''+''"
  by (auto simp: isdigit_def isspace_def)

lemma dec_nonempty: "dec n \<noteq> []"
  by (subst dec.simps) simp

lemma dec_digits: "c \<in> set (dec n) \<Longrightarrow> isdigit c"
proof (induction n rule: dec.induct)
  case (1 n)
  then show ?case
    by (subst (asm) (2) dec.simps) (auto simp: isdigit_digit_char split: if_splits)
qed

lemma dec_value: "foldl (\<lambda>acc c. 10 * acc + digit_val c) 0 (dec n) = n"
proof (induction n rule: dec.induct)
  case (1 n)
  show ?case
  proof (cases "n < 10")
    case True
    then show ?thesis by (subst dec.simps) (simp add: digit_val_digit_char)
  next
    case False
    then show ?thesis
      using "1.IH" by (subst dec.simps) (simp add: digit_val_digit_char)
  qed
qed

lemma hd_dec_digit: "isdigit (hd (dec n))"
  using dec_nonempty [of n] dec_digits [of "hd (dec n)" n] by simp

lemma takeWhile_dec: "\<not> isdigit c \<Longrightarrow> takeWhile isdigit (dec n @ c # r) = dec n"
  by (simp add: takeWhile_append2 dec_digits)

lemma dropWhile_dec: "\<not> isdigit c \<Longrightarrow> dropWhile isdigit (dec n @ c # r) = c # r"
  by (simp add: dropWhile_append2 dec_digits)

lemma dec_append_cases: "\<exists>d ds. dec n @ xs = d # ds \<and> isdigit d"
  using dec_nonempty [of n] hd_dec_digit [of n] by (cases "dec n") auto

lemma scan_digits_dec:
  "\<not> isdigit c \<Longrightarrow> scan_digits (dec n @ c # r) = (Some n, c # r)"
  by (simp add: scan_digits_def takeWhile_dec dropWhile_dec dec_value dec_nonempty)

lemma scan_sign_digit: "isdigit d \<Longrightarrow> scan_sign (d # ds) = (False, d # ds)"
  by (auto simp: scan_sign_def dest: isdigit_not_other)

lemma scan_sign_minus: "scan_sign (CHR ''-'' # r) = (True, r)"
  by (simp add: scan_sign_def)

lemma dropWhile_isspace_digit: "isdigit d \<Longrightarrow> dropWhile isspace (d # ds) = d # ds"
  by (auto dest: isdigit_not_other)

lemma dropWhile_isspace_minus: "dropWhile isspace (CHR ''-'' # r) = CHR ''-'' # r"
  by (simp add: isspace_def)

lemma scan_int_dec:
  assumes "\<not> isdigit c"
  shows "scan_int (dec n @ c # r) = (Some (int n), c # r)"
proof -
  obtain d ds where e: "dec n @ c # r = d # ds" and d: "isdigit d"
    using dec_append_cases by blast
  have "scan_sign (dropWhile isspace (dec n @ c # r)) = (False, dec n @ c # r)"
    unfolding e by (simp only: dropWhile_isspace_digit [OF d] scan_sign_digit [OF d])
  then show ?thesis
    by (simp add: scan_int_def scan_digits_dec [OF assms])
qed

lemma scan_int_minus_dec:
  assumes "\<not> isdigit c"
  shows "scan_int (CHR ''-'' # dec n @ c # r) = (Some (- int n), c # r)"
  by (simp only: scan_int_def dropWhile_isspace_minus scan_sign_minus scan_digits_dec [OF assms]
      prod.case option.case if_True)

lemma scan_int_print_int:
  assumes "\<not> isdigit c"
  shows "scan_int (print_int v @ c # r) = (Some v, c # r)"
proof (cases "v < 0")
  case True
  then have "print_int v @ c # r = CHR ''-'' # dec (nat (- v)) @ c # r"
    by (simp add: print_int_def)
  with True show ?thesis by (simp add: scan_int_minus_dec [OF assms])
next
  case False
  then have "print_int v @ c # r = dec (nat v) @ c # r"
    by (simp add: print_int_def)
  with False show ?thesis by (simp add: scan_int_dec [OF assms])
qed

lemma dropWhile_isspace_print_int: "dropWhile isspace (print_int v @ r) = print_int v @ r"
proof (cases "v < 0")
  case True
  then have "print_int v @ r = CHR ''-'' # dec (nat (- v)) @ r"
    by (simp add: print_int_def)
  then show ?thesis by (simp only: dropWhile_isspace_minus)
next
  case False
  obtain d ds where e: "dec (nat v) @ r = d # ds" and d: "isdigit d"
    using dec_append_cases by blast
  from False have "print_int v @ r = d # ds"
    by (simp add: print_int_def e)
  then show ?thesis by (simp only: dropWhile_isspace_digit [OF d])
qed

lemma fprintf_FORMAT:
  "fprintf FORMAT [c, a0, a1, a2, b0, b1, b2] =
     ''channel '' @ print_int c @ '', HSVMIN{'' @ print_int a0 @ '','' @ print_int a1 @ '','' @
     print_int a2 @ ''}, HSVMAX{'' @ print_int b0 @ '','' @ print_int b1 @ '','' @ print_int b2 @
     ''}'' @ [CHR 0x0A]"
  by (simp add: FORMAT_def)

lemma not_isdigit_sep: "\<not> isdigit CHR '',''" "\<not> isdigit CHR ''}''"
  by (simp_all add: isdigit_def)

lemma isspace_chars: "isspace CHR '' ''" "isspace (CHR 0x0A)"
  by (simp_all add: isspace_def)

lemma fscanf_conv:
  "\<not> isdigit c \<Longrightarrow>
     fscanf (CHR ''%'' # CHR ''d'' # fmt) (print_int v @ c # r) =
       (case fscanf fmt (c # r) of (vs, r') \<Rightarrow> (v # vs, r'))"
  by (simp add: scan_int_print_int)

lemma fscanf_space:
  "isspace s \<Longrightarrow> fscanf (s # fmt) inp = fscanf fmt (dropWhile isspace inp)"
  by (auto simp: isspace_def)

lemma fscanf_lit:
  "c \<noteq> CHR ''%'' \<Longrightarrow> \<not> isspace c \<Longrightarrow> fscanf (c # fmt) (c # inp) = fscanf fmt inp"
  by simp

lemma fscanf_line:
  "fscanf FORMAT (fprintf FORMAT [c, a0, a1, a2, b0, b1, b2] @ rest) =
     ([c, a0, a1, a2, b0, b1, b2], dropWhile isspace rest)"
  unfolding fprintf_FORMAT unfolding FORMAT_def
  by (simp add: isspace_def isdigit_def scan_int_print_int dropWhile_isspace_print_int
      del: fscanf.simps(2) add: fscanf_conv fscanf_space fscanf_lit)


lemma config_line_head: "\<exists>r. config_line MINs MAXs i = CHR ''c'' # r"
  by (simp add: config_line_def fprintf_FORMAT)

lemma dropWhile_isspace_lines:
  "dropWhile isspace (concat (map (config_line MINs MAXs) js)) =
     concat (map (config_line MINs MAXs) js)"
proof (cases js)
  case Nil
  then show ?thesis by simp
next
  case (Cons j js')
  obtain r where "config_line MINs MAXs j = CHR ''c'' # r"
    using config_line_head by blast
  with Cons show ?thesis by (simp add: isspace_def)
qed

lemma saveLoop_lines:
  "saveLoop i n MINs MAXs out = out @ concat (map (config_line MINs MAXs) [i..<n])"
proof (induction i n MINs MAXs out rule: saveLoop.induct)
  case (1 i n MINs MAXs out)
  show ?case
  proof (cases "i < n")
    case True
    then show ?thesis
      using "1.IH" [OF True]
      by (subst saveLoop.simps) (simp add: upt_conv_Cons)
  next
    case False
    then show ?thesis by (subst saveLoop.simps) simp
  qed
qed

lemma store_row3: "length row = 3 \<Longrightarrow> length vs = 3 \<Longrightarrow> store row vs = vs"
  by (simp add: store_def)

lemma row3_nth: "length (xs :: int list) = 3 \<Longrightarrow> [xs ! 0, xs ! Suc 0, xs ! 2] = xs"
  by (auto simp: length_Suc_conv eval_nat_numeral)

lemma rows3_update:
  assumes "rows3 n M" "length row = 3"
  shows "rows3 n (M[i := row])"
proof -
  have "length (M[i := row] ! k) = 3" if "k < n" for k
    using assms that by (cases "k = i") (simp_all add: rows3_def)
  with assms(1) show ?thesis by (simp add: rows3_def)
qed

lemma loadLoop_lines:
  "rows3 n MINs \<Longrightarrow> rows3 n MAXs \<Longrightarrow> rows3 n M0 \<Longrightarrow> rows3 n X0 \<Longrightarrow>
   inp = concat (map (config_line MINs MAXs) [i..<n]) \<Longrightarrow>
     loadLoop i n inp M0 X0 = (take i M0 @ drop i MINs, take i X0 @ drop i MAXs)"
proof (induction i n inp M0 X0 rule: loadLoop.induct)
  case (1 i n inp M0 X0)
  show ?case
  proof (cases "i < n")
    case True
    let ?rest = "concat (map (config_line MINs MAXs) [Suc i..<n])"
    let ?vs = "[int i, MINs ! i ! 0, MINs ! i ! 1, MINs ! i ! 2,
                MAXs ! i ! 0, MAXs ! i ! 1, MAXs ! i ! 2]"
    have len: "length (MINs ! i) = 3" "length (MAXs ! i) = 3"
      "length (M0 ! i) = 3" "length (X0 ! i) = 3"
      "length MINs = n" "length MAXs = n" "length M0 = n" "length X0 = n"
      using "1.prems" True by (simp_all add: rows3_def)
    have "config_line MINs MAXs i = fprintf FORMAT ?vs"
      by (simp only: config_line_def)
    then have inp: "inp = fprintf FORMAT ?vs @ ?rest"
      using "1.prems"(5) True by (simp add: upt_conv_Cons)
    have sc: "fscanf FORMAT inp = (?vs, ?rest)"
      unfolding inp by (simp only: fscanf_line dropWhile_isspace_lines)
    have st: "store (M0 ! i) (take 3 (drop 1 ?vs)) = MINs ! i"
      "store (X0 ! i) (take 3 (drop 4 ?vs)) = MAXs ! i"
      using len by (simp_all add: store_row3 row3_nth)
    have "loadLoop i n inp M0 X0 =
        loadLoop (Suc i) n ?rest (M0[i := MINs ! i]) (X0[i := MAXs ! i])"
      using True by (subst loadLoop.simps) (simp only: sc st prod.case if_True)
    also have "\<dots> = (take (Suc i) (M0[i := MINs ! i]) @ drop (Suc i) MINs,
                       take (Suc i) (X0[i := MAXs ! i]) @ drop (Suc i) MAXs)"
      using "1.IH" [OF True sc [symmetric] "1.prems"(1,2) _ _ refl]
        rows3_update [OF "1.prems"(3) len(1), of i] rows3_update [OF "1.prems"(4) len(2), of i]
      by (simp only: st)
    also have "take (Suc i) (M0[i := MINs ! i]) @ drop (Suc i) MINs = take i M0 @ drop i MINs"
      using True len by (simp add: take_Suc_conv_app_nth Cons_nth_drop_Suc)
    also have "take (Suc i) (X0[i := MAXs ! i]) @ drop (Suc i) MAXs = take i X0 @ drop i MAXs"
      using True len by (simp add: take_Suc_conv_app_nth Cons_nth_drop_Suc)
    finally show ?thesis .
  next
    case False
    with "1.prems" have "drop i MINs = []" "drop i MAXs = []" "take i M0 = M0" "take i X0 = X0"
      by (simp_all add: rows3_def)
    with False show ?thesis by (subst loadLoop.simps) simp
  qed
qed

text \<open>
  Claim C9. When the file can be opened for writing, \<^verbatim>\<open>saveConfigFile\<close> succeeds, and
  \<^verbatim>\<open>loadConfigFile\<close> on the file it wrote returns 0 and fills the arrays with exactly
  the saved MIN and MAX rows of every channel, whatever the arrays held before. This
  holds for any number of channels, in particular for the 3 channels of the program.
\<close>

theorem save_then_load_roundtrip:
  assumes "writable fs"
    and "rows3 n MINs" and "rows3 n MAXs" and "rows3 n MINs0" and "rows3 n MAXs0"
  shows "fst (saveConfigFile fs MINs MAXs n) = 0 \<and>
         loadConfigFile (snd (saveConfigFile fs MINs MAXs n)) MINs0 MAXs0 n = (0, MINs, MAXs)"
proof -
  have "loadLoop 0 n (saveLoop 0 n MINs MAXs []) MINs0 MAXs0 = (MINs, MAXs)"
    using loadLoop_lines [OF assms(2-5) refl, of 0] by (simp add: saveLoop_lines)
  with assms(1) show ?thesis
    by (simp add: saveConfigFile_def loadConfigFile_def)
qed

lemma rows3_3:
  "rows3 3 M \<longleftrightarrow>
     length M = 3 \<and> length (M ! 0) = 3 \<and> length (M ! 1) = 3 \<and> length (M ! 2) = 3"
  unfolding rows3_def less3 by auto

lemma rows3_ex: "rows3 3 exMin" "rows3 3 exMax" "rows3 3 defaultMin" "rows3 3 defaultMax"
  unfolding rows3_3 by (simp_all add: exMin_def exMax_def defaultMin_def defaultMax_def)

lemma digit_char_eval:
  "digit_char 0 = CHR ''0''" "digit_char 1 = CHR ''1''" "digit_char 2 = CHR ''2''"
  "digit_char 3 = CHR ''3''" "digit_char 4 = CHR ''4''" "digit_char 5 = CHR ''5''"
  "digit_char 6 = CHR ''6''" "digit_char 7 = CHR ''7''" "digit_char 8 = CHR ''8''"
  "digit_char 9 = CHR ''9''" "digit_char (Suc 0) = CHR ''1''"
  by code_simp+

text \<open>
  Three channels with a negative and a large component: the text of the file, and the
  arrays read back over the defaults.
\<close>

theorem save_then_load_roundtrip_witness:
  "writable exFs \<and> rows3 3 exMin \<and> rows3 3 exMax \<and> rows3 3 defaultMin \<and> rows3 3 defaultMax \<and>
   saveConfigFile exFs exMin exMax 3 =
     (0, \<lparr>contents = Some (
            ''channel 0, HSVMIN{0,92,255}, HSVMAX{12,172,255}'' @ [CHR 0x0A] @
            ''channel 1, HSVMIN{9,81,165}, HSVMAX{14,154,229}'' @ [CHR 0x0A] @
            ''channel 2, HSVMIN{-1,20,300}, HSVMAX{7,0,2147483647}'' @ [CHR 0x0A]),
          writable = True\<rparr>) \<and>
   loadConfigFile (snd (saveConfigFile exFs exMin exMax 3)) defaultMin defaultMax 3 =
     (0, exMin, exMax)"
proof -
  have w: "writable exFs" by (simp add: exFs_def)
  have ev: "saveConfigFile exFs exMin exMax 3 =
     (0, \<lparr>contents = Some (
            ''channel 0, HSVMIN{0,92,255}, HSVMAX{12,172,255}'' @ [CHR 0x0A] @
            ''channel 1, HSVMIN{9,81,165}, HSVMAX{14,154,229}'' @ [CHR 0x0A] @
            ''channel 2, HSVMIN{-1,20,300}, HSVMAX{7,0,2147483647}'' @ [CHR 0x0A]),
          writable = True\<rparr>)"
    by (simp add: saveConfigFile_def exFs_def saveLoop_lines upt_conv_Cons config_line_def
        fprintf_FORMAT exMin_def exMax_def print_int_def dec.simps digit_char_eval)
  from save_then_load_roundtrip [OF w rows3_ex] w rows3_ex ev show ?thesis
    by (simp only: simp_thms)
qed

end
